theory Spec2Isabelle
  imports Main "HOL-Library.Word" "HOL-Library.Monad_Syntax"
begin

unbundle bit_operations_syntax

section \<open>Strings and machine integers\<close>

text \<open>
  The engine works on linear JS strings, stored either as Latin-1 bytes or as
  two-byte (UTF-16) code units; \<open>size_t\<close> is taken at 64 bits and the C \<open>int\<close> of a
  capture offset at 32 bits. An atom is an interned linear string, so that equal content
  means the same atom: atoms are compared by value.
\<close>

type_synonym Latin1Char = "8 word"
type_synonym char16_t = "16 word"
type_synonym size_t = "64 word"
type_synonym int32 = "32 word"

datatype JSLinearString = Latin1Str "Latin1Char list" | TwoByteStr "char16_t list"

type_synonym JSAtom = JSLinearString

fun hasLatin1Chars :: "JSLinearString \<Rightarrow> bool" where
  "hasLatin1Chars (Latin1Str cs) = True"
| "hasLatin1Chars (TwoByteStr cs) = False"

fun length_str :: "JSLinearString \<Rightarrow> nat" where
  "length_str (Latin1Str cs) = length cs"
| "length_str (TwoByteStr cs) = length cs"

text \<open>The code units of a string, widened to 16 bits, and their numeric values.\<close>

fun twoByteContent :: "JSLinearString \<Rightarrow> char16_t list" where
  "twoByteContent (Latin1Str cs) = map ucast cs"
| "twoByteContent (TwoByteStr cs) = cs"

fun charCodes :: "JSLinearString \<Rightarrow> nat list" where
  "charCodes (Latin1Str cs) = map unat cs"
| "charCodes (TwoByteStr cs) = map unat cs"

text \<open>An ASCII literal as a Latin-1 string.\<close>

definition ascii :: "string \<Rightarrow> JSLinearString" where
  "ascii s = Latin1Str (map of_char s)"

section \<open>Flags\<close>

text \<open>
  Modelled from the spec: the \<open>RegExpFlag\<close> enumeration is declared in
  \<open>vm/RegExpObject.h\<close>, which is not among the sources; the spec describes four
  independent bits (ignore-case, global, multiline, sticky) of a 32-bit value. The bit
  values are those of \<open>JSREG_FOLD\<close>, \<open>JSREG_GLOB\<close>, \<open>JSREG_MULTILINE\<close> and
  \<open>JSREG_STICKY\<close>, to which the static assertions of \<open>RegExpObject.cpp\<close> tie them.
\<close>

type_synonym RegExpFlag = "32 word"

definition IgnoreCaseFlag :: RegExpFlag where "IgnoreCaseFlag = 0x01"
definition GlobalFlag :: RegExpFlag where "GlobalFlag = 0x02"
definition MultilineFlag :: RegExpFlag where "MultilineFlag = 0x04"
definition StickyFlag :: RegExpFlag where "StickyFlag = 0x08"

subsection \<open>Error reports\<close>

datatype JSErrNum = JSMSG_BAD_REGEXP_FLAG | JSMSG_OUT_OF_MEMORY | JSMSG_OVER_RECURSED

record JSErrorReport =
  errorNumber :: JSErrNum
  messageArg :: "Latin1Char list"

subsection \<open>Flag parsing\<close>

definition HandleRegExpFlag :: "RegExpFlag \<Rightarrow> RegExpFlag \<Rightarrow> bool \<times> RegExpFlag" where
  "HandleRegExpFlag flag flags =
     (if flags AND flag \<noteq> 0 then (False, flags) else (True, flags OR flag))"

text \<open>
  The static template \<open>ParseRegExpFlags<CharT>\<close>: the loop over the characters, with the
  two out-parameters \<open>flagsOut\<close> and \<open>lastParsedOut\<close> threaded through. The caller's
  \<open>lastParsed\<close> starts uninitialised, which is \<open>None\<close> here. The character codes are
  105 (i), 103 (g), 109 (m) and 121 (y).
\<close>

fun ParseRegExpFlags_loop ::
  "'c::len word list \<Rightarrow> RegExpFlag \<Rightarrow> char16_t option \<Rightarrow> bool \<times> RegExpFlag \<times> char16_t option" where
  "ParseRegExpFlags_loop [] flagsOut lastParsedOut = (True, flagsOut, lastParsedOut)"
| "ParseRegExpFlags_loop (c # chars) flagsOut lastParsedOut =
     (if unat c = 105 then
        (case HandleRegExpFlag IgnoreCaseFlag flagsOut of
           (ok, flags) \<Rightarrow>
             if \<not> ok then (False, flags, Some (ucast c))
             else ParseRegExpFlags_loop chars flags (Some (ucast c)))
      else if unat c = 103 then
        (case HandleRegExpFlag GlobalFlag flagsOut of
           (ok, flags) \<Rightarrow>
             if \<not> ok then (False, flags, Some (ucast c))
             else ParseRegExpFlags_loop chars flags (Some (ucast c)))
      else if unat c = 109 then
        (case HandleRegExpFlag MultilineFlag flagsOut of
           (ok, flags) \<Rightarrow>
             if \<not> ok then (False, flags, Some (ucast c))
             else ParseRegExpFlags_loop chars flags (Some (ucast c)))
      else if unat c = 121 then
        (case HandleRegExpFlag StickyFlag flagsOut of
           (ok, flags) \<Rightarrow>
             if \<not> ok then (False, flags, Some (ucast c))
             else ParseRegExpFlags_loop chars flags (Some (ucast c)))
      else (False, flagsOut, Some (ucast c)))"

definition ParseRegExpFlags_chars ::
  "'c::len word list \<Rightarrow> bool \<times> RegExpFlag \<times> char16_t option" where
  "ParseRegExpFlags_chars chars = ParseRegExpFlags_loop chars 0 None"

text \<open>
  \<open>js::ParseRegExpFlags\<close>. The argument is the outcome of \<open>flagStr->ensureLinear(cx)\<close>,
  \<open>None\<close> when linearising the string ran out of memory. On failure the report carries
  \<open>charBuf\<close>, the two-byte C string made of \<open>char(lastParsed)\<close> and the terminator.
\<close>

definition ParseRegExpFlags :: "JSLinearString option \<Rightarrow> JSErrorReport + RegExpFlag" where
  "ParseRegExpFlags flagStr =
     (case flagStr of
        None \<Rightarrow> Inl \<lparr>errorNumber = JSMSG_OUT_OF_MEMORY, messageArg = []\<rparr>
      | Some linear \<Rightarrow>
          (case (case linear of
                   Latin1Str latin1Chars \<Rightarrow> ParseRegExpFlags_chars latin1Chars
                 | TwoByteStr twoByteChars \<Rightarrow> ParseRegExpFlags_chars twoByteChars) of
             (ok, flagsOut, lastParsed) \<Rightarrow>
               if \<not> ok then
                 Inl \<lparr>errorNumber = JSMSG_BAD_REGEXP_FLAG,
                      messageArg = (case lastParsed of
                                      Some c \<Rightarrow> [ucast c, 0]
                                    | None \<Rightarrow> [0])\<rparr>
               else Inr flagsOut))"

subsection \<open>What the flag parser is expected to compute\<close>

text \<open>
  The vocabulary of the statements about the parser: the codes of the four flag letters,
  the bitset of a set of letter codes, and the positions of a flag string at which parsing
  stops (a character that is no flag letter, or one that occurred before).
\<close>

definition flagLetters :: "nat set" where
  "flagLetters = {105, 103, 109, 121}"

definition flagsOfLetters :: "nat set \<Rightarrow> RegExpFlag" where
  "flagsOfLetters S =
     (if 105 \<in> S then IgnoreCaseFlag else 0) OR (if 103 \<in> S then GlobalFlag else 0) OR
     (if 109 \<in> S then MultilineFlag else 0) OR (if 121 \<in> S then StickyFlag else 0)"

definition offendingAt :: "nat list \<Rightarrow> nat \<Rightarrow> bool" where
  "offendingAt codes i = (codes ! i \<notin> flagLetters \<or> codes ! i \<in> set (take i codes))"

section \<open>The RegExp object and its textual form\<close>

text \<open>
  The reserved slots of a \<open>RegExpObject\<close>, named as the slot constants are, and the
  private pointer to its shared record. The accessors \<open>getSource()\<close>, \<open>global()\<close>,
  \<open>ignoreCase()\<close>, \<open>multiline()\<close> and \<open>sticky()\<close> read the slots.
\<close>

record RegExpObject =
  LAST_INDEX_SLOT :: nat
  SOURCE_SLOT :: JSAtom
  GLOBAL_FLAG_SLOT :: bool
  IGNORE_CASE_FLAG_SLOT :: bool
  MULTILINE_FLAG_SLOT :: bool
  STICKY_FLAG_SLOT :: bool
  private' :: "nat option"

text \<open>
  \<open>RegExpObject::init\<close>; \<open>shapeOk\<close> is the outcome of
  \<open>EmptyShape::ensureInitialCustomShape\<close>, which can run out of memory.
\<close>

definition init :: "bool \<Rightarrow> RegExpObject \<Rightarrow> JSAtom \<Rightarrow> RegExpFlag \<Rightarrow> bool \<times> RegExpObject" where
  "init shapeOk self src flags =
     (if \<not> shapeOk then (False, self)
      else (True, self\<lparr>private' := None,
                       LAST_INDEX_SLOT := 0,
                       SOURCE_SLOT := src,
                       GLOBAL_FLAG_SLOT := (flags AND GlobalFlag \<noteq> 0),
                       IGNORE_CASE_FLAG_SLOT := (flags AND IgnoreCaseFlag \<noteq> 0),
                       MULTILINE_FLAG_SLOT := (flags AND MultilineFlag \<noteq> 0),
                       STICKY_FLAG_SLOT := (flags AND StickyFlag \<noteq> 0)\<rparr>))"

text \<open>
  A \<open>StringBuffer\<close>: its characters and the number of characters the allocator is able
  to give it. A fallible operation fails exactly when the buffer would outgrow that
  number; \<open>infallibleAppend\<close> writes into space reserved before.
\<close>

record StringBuffer =
  sb_chars :: "char16_t list"
  sb_limit :: nat

definition reserve :: "nat \<Rightarrow> StringBuffer \<Rightarrow> StringBuffer option" where
  "reserve n sb = (if n \<le> sb_limit sb then Some sb else None)"

definition append_sb :: "char16_t list \<Rightarrow> StringBuffer \<Rightarrow> StringBuffer option" where
  "append_sb cs sb =
     (if length (sb_chars sb) + length cs \<le> sb_limit sb
      then Some (sb\<lparr>sb_chars := sb_chars sb @ cs\<rparr>) else None)"

definition infallibleAppend :: "char16_t list \<Rightarrow> StringBuffer \<Rightarrow> StringBuffer" where
  "infallibleAppend cs sb = sb\<lparr>sb_chars := sb_chars sb @ cs\<rparr>"

definition finishString :: "StringBuffer \<Rightarrow> char16_t list option" where
  "finishString sb = (if length (sb_chars sb) \<le> sb_limit sb then Some (sb_chars sb) else None)"

text \<open>The code units of an ASCII literal.\<close>

definition cstr :: "string \<Rightarrow> char16_t list" where
  "cstr s = map of_char s"

text \<open>
  \<open>RegExpObject::toString\<close>; \<open>None\<close> is the null pointer returned when the buffer
  cannot grow, \<open>memLimit\<close> the room the context has for it.
\<close>

definition toString :: "nat \<Rightarrow> RegExpObject \<Rightarrow> char16_t list option" where
  "toString memLimit self =
     (let src = SOURCE_SLOT self;
          sb0 = \<lparr>sb_chars = [], sb_limit = memLimit\<rparr>;
          len = length_str src
      in do {
        sb1 \<leftarrow> (if len \<noteq> 0 then do {
                   sb \<leftarrow> reserve (len + 2) sb0;
                   sb \<leftarrow> append_sb (twoByteContent src) (infallibleAppend (cstr ''/'') sb);
                   Some (infallibleAppend (cstr ''/'') sb)
                 } else append_sb (cstr ''/(?:)/'') sb0);
        sb2 \<leftarrow> (if GLOBAL_FLAG_SLOT self then append_sb (cstr ''g'') sb1 else Some sb1);
        sb3 \<leftarrow> (if IGNORE_CASE_FLAG_SLOT self then append_sb (cstr ''i'') sb2 else Some sb2);
        sb4 \<leftarrow> (if MULTILINE_FLAG_SLOT self then append_sb (cstr ''m'') sb3 else Some sb3);
        sb5 \<leftarrow> (if STICKY_FLAG_SLOT self then append_sb (cstr ''y'') sb4 else Some sb4);
        finishString sb5
      })"

subsection \<open>The textual form as described\<close>

text \<open>
  The rendering in the words of the description: the source between slashes, \<open>(?:)\<close>
  standing for an empty source, followed by the letters of the set flags in the order
  g, i, m, y.
\<close>

definition flagLettersText :: "RegExpObject \<Rightarrow> char16_t list" where
  "flagLettersText obj =
     (if GLOBAL_FLAG_SLOT obj then cstr ''g'' else []) @ (if IGNORE_CASE_FLAG_SLOT obj then cstr ''i'' else []) @
     (if MULTILINE_FLAG_SLOT obj then cstr ''m'' else []) @ (if STICKY_FLAG_SLOT obj then cstr ''y'' else [])"

definition textualForm :: "RegExpObject \<Rightarrow> char16_t list" where
  "textualForm obj =
     cstr ''/'' @ (if length_str (SOURCE_SLOT obj) = 0 then cstr ''(?:)'' else twoByteContent (SOURCE_SLOT obj))
       @ cstr ''/'' @ flagLettersText obj"

text \<open>A blank object, as allocated by the builder before \<open>init\<close> fills its slots.\<close>

definition blankObject :: RegExpObject where
  "blankObject = \<lparr>LAST_INDEX_SLOT = 0, SOURCE_SLOT = Latin1Str [], GLOBAL_FLAG_SLOT = False, IGNORE_CASE_FLAG_SLOT = False,
                   MULTILINE_FLAG_SLOT = False, STICKY_FLAG_SLOT = False, private' = None\<rparr>"

section \<open>MatchPairs\<close>

text \<open>
  A \<open>MOZ_ASSERT\<close> that fails aborts a debug build, and a write through a null pointer
  crashes any build: both are outcomes of their own, next to a normal return.
\<close>

datatype 'a outcome = Returns 'a | AssertionFailure | NullDereference

record MatchPair =
  start :: int32
  limit :: int32

definition sizeof_MatchPair :: nat where
  "sizeof_MatchPair = 8"

text \<open>
  Modelled from the spec: \<open>MatchPair::check\<close> is declared in \<open>vm/MatchPairs.h\<close>, which is
  not among the sources. In the spec's words a pair is a start offset and an end offset, or
  both \<open>-1\<close> for a capture that did not participate.
\<close>

definition check :: "MatchPair \<Rightarrow> bool" where
  "check p = ((start p = -1 \<and> limit p = -1) \<or> (0 \<le>s start p \<and> start p \<le>s limit p))"

text \<open>
  An allocator that hands out consecutive addresses until its space is used up; it stands
  for the arena behind a \<open>LifoAllocScope\<close> and for the system heap behind a vector.
\<close>

record Allocator =
  latest :: nat
  avail :: nat

definition alloc :: "nat \<Rightarrow> Allocator \<Rightarrow> nat option \<times> Allocator" where
  "alloc n a =
     (if n \<le> avail a then (Some (latest a), a\<lparr>latest := latest a + n, avail := avail a - n\<rparr>)
      else (None, a))"

text \<open>
  The storage of a \<open>js::Vector\<close>: where its elements begin, how many bytes it holds and
  how many it has room for.
\<close>

record Vector =
  vec_begin :: nat
  vec_length :: nat
  vec_capacity :: nat

text \<open>
  A \<open>MatchPairs\<close> object of either allocation discipline: the base-class fields
  \<open>pairCount_\<close> and \<open>pairs_\<close> (\<open>None\<close> is the null pointer; a member name that ends in
  an underscore is written with a prime in its place), the memory the pointer
  reaches into (one \<open>MatchPair\<close> at each address that is a multiple of its size away from
  \<open>pairs'\<close>), the tag that selects the override of the virtual \<open>allocOrExpandArray\<close>,
  and the members of the two subclasses.
\<close>

datatype Discipline = Scoped | Growable

record MatchPairs =
  pairCount' :: nat
  pairs' :: "nat option"
  memory :: "nat \<Rightarrow> MatchPair"
  discipline :: Discipline
  lifoScope' :: Allocator
  vec' :: Vector
  heap' :: Allocator

text \<open>The pairs an object holds, read through \<open>pairs'\<close>.\<close>

definition pairsOf :: "MatchPairs \<Rightarrow> MatchPair list" where
  "pairsOf m =
     (case pairs' m of
        None \<Rightarrow> []
      | Some p \<Rightarrow> map (\<lambda>i. memory m (p + sizeof_MatchPair * i)) [0..<pairCount' m])"

text \<open>
  \<open>ScopedMatchPairs::allocOrExpandArray\<close>. The pair count is a \<open>size_t\<close> and so is the
  byte count \<open>sizeof(MatchPair) * pairCount\<close> that the arena is asked for: the product is
  taken modulo \<open>2^64\<close>, and nothing checks that it has not wrapped around.
\<close>

definition ScopedMatchPairs_allocOrExpandArray ::
  "nat \<Rightarrow> MatchPairs \<Rightarrow> (bool \<times> MatchPairs) outcome" where
  "ScopedMatchPairs_allocOrExpandArray pairCount m =
     (if pairCount' m \<noteq> 0 then
        (if pairs' m = None then AssertionFailure
         else if pairCount' m \<noteq> pairCount then AssertionFailure
         else Returns (True, m))
      else if pairs' m \<noteq> None then AssertionFailure
      else
        (case alloc ((sizeof_MatchPair * pairCount) mod 2 ^ 64) (lifoScope' m) of
           (None, a) \<Rightarrow> Returns (False, m\<lparr>pairs' := None, lifoScope' := a\<rparr>)
         | (Some p, a) \<Rightarrow>
             Returns (True, m\<lparr>pairs' := Some p, lifoScope' := a, pairCount' := pairCount\<rparr>)))"

text \<open>
  \<open>Vector::resizeUninitialized\<close>: within the capacity only the length changes; beyond
  it the elements move to a new block, which may not be had. The vector's override of
  \<open>allocOrExpandArray\<close> passes it the same product in \<open>size_t\<close>.
\<close>

definition resizeUninitialized :: "nat \<Rightarrow> MatchPairs \<Rightarrow> bool \<times> MatchPairs" where
  "resizeUninitialized n m =
     (if n \<le> vec_capacity (vec' m) then (True, m\<lparr>vec' := (vec' m)\<lparr>vec_length := n\<rparr>\<rparr>)
      else
        (case alloc n (heap' m) of
           (None, a) \<Rightarrow> (False, m)
         | (Some p, a) \<Rightarrow>
             (True, m\<lparr>heap' := a,
                      memory := (\<lambda>addr. if p \<le> addr \<and> addr < p + vec_length (vec' m)
                                           then memory m (vec_begin (vec' m) + (addr - p))
                                           else memory m addr),
                      vec' := \<lparr>vec_begin = p, vec_length = n, vec_capacity = n\<rparr>\<rparr>)))"

definition VectorMatchPairs_allocOrExpandArray ::
  "nat \<Rightarrow> MatchPairs \<Rightarrow> (bool \<times> MatchPairs) outcome" where
  "VectorMatchPairs_allocOrExpandArray pairCount m =
     (case resizeUninitialized ((sizeof_MatchPair * pairCount) mod 2 ^ 64) m of
        (False, m') \<Rightarrow> Returns (False, m')
      | (True, m') \<Rightarrow>
          if vec_length (vec' m') = 0 then AssertionFailure
          else Returns (True, m'\<lparr>pairs' := Some (vec_begin (vec' m')), pairCount' := pairCount\<rparr>))"

definition allocOrExpandArray :: "nat \<Rightarrow> MatchPairs \<Rightarrow> (bool \<times> MatchPairs) outcome" where
  "allocOrExpandArray pairCount m =
     (case discipline m of
        Scoped \<Rightarrow> ScopedMatchPairs_allocOrExpandArray pairCount m
      | Growable \<Rightarrow> VectorMatchPairs_allocOrExpandArray pairCount m)"

text \<open>The loop of \<open>initArray\<close>, writing through \<open>pairs'\<close> at address \<open>p\<close>.\<close>

function initArray_loop :: "nat \<Rightarrow> nat \<Rightarrow> nat \<Rightarrow> (nat \<Rightarrow> MatchPair) \<Rightarrow> (nat \<Rightarrow> MatchPair)" where
  "initArray_loop i pairCount p mem =
     (if i < pairCount
      then initArray_loop (i + 1) pairCount p
             (mem(p + sizeof_MatchPair * i := \<lparr>start = -1, limit = -1\<rparr>))
      else mem)"
  by pat_completeness auto
termination
  by (relation "measure (\<lambda>(i, pairCount, p, mem). pairCount - i)") auto

declare initArray_loop.simps [simp del]

definition initArray :: "nat \<Rightarrow> MatchPairs \<Rightarrow> (bool \<times> MatchPairs) outcome" where
  "initArray pairCount m =
     (if \<not> pairCount > 0 then AssertionFailure
      else
        (case allocOrExpandArray pairCount m of
           AssertionFailure \<Rightarrow> AssertionFailure
         | NullDereference \<Rightarrow> NullDereference
         | Returns (False, m') \<Rightarrow> Returns (False, m')
         | Returns (True, m') \<Rightarrow>
             (case pairs' m' of
                None \<Rightarrow> NullDereference
              | Some p \<Rightarrow> Returns (True, m'\<lparr>memory := initArray_loop 0 pairCount p (memory m')\<rparr>))))"

text \<open>
  \<open>MatchPairs::displace\<close>. The sum of an \<open>int\<close> and a \<open>size_t\<close> is formed in \<open>size_t\<close> and
  stored back into the \<open>int\<close>, which keeps its low 32 bits.
\<close>

function displace_loop ::
  "nat \<Rightarrow> size_t \<Rightarrow> nat \<Rightarrow> nat \<Rightarrow> (nat \<Rightarrow> MatchPair) \<Rightarrow> (nat \<Rightarrow> MatchPair) outcome" where
  "displace_loop i disp pairCount p mem =
     (if i < pairCount then
        (let pr = mem (p + sizeof_MatchPair * i) in
         if \<not> check pr then AssertionFailure
         else displace_loop (i + 1) disp pairCount p
                (mem(p + sizeof_MatchPair * i :=
                   \<lparr>start = start pr + (if start pr <s 0 then 0 else ucast disp),
                    limit = limit pr + (if limit pr <s 0 then 0 else ucast disp)\<rparr>)))
      else Returns mem)"
  by pat_completeness auto
termination
  by (relation "measure (\<lambda>(i, disp, pairCount, p, mem). pairCount - i)") auto

declare displace_loop.simps [simp del]

definition displace :: "size_t \<Rightarrow> MatchPairs \<Rightarrow> MatchPairs outcome" where
  "displace disp m =
     (if disp = 0 then Returns m
      else if pairCount' m = 0 then Returns m
      else
        (case pairs' m of
           None \<Rightarrow> NullDereference
         | Some p \<Rightarrow>
             (case displace_loop 0 disp (pairCount' m) p (memory m) of
                Returns mem \<Rightarrow> Returns (m\<lparr>memory := mem\<rparr>)
              | AssertionFailure \<Rightarrow> AssertionFailure
              | NullDereference \<Rightarrow> NullDereference)))"

text \<open>
  Modelled from the spec: \<open>MatchPairs::checkAgainst\<close> is declared in \<open>vm/MatchPairs.h\<close>,
  which is not among the sources. In the spec's words it validates that every recorded
  offset lies within 0 and the original input length, an offset of an absent capture
  being \<open>-1\<close>.
\<close>

definition checkAgainst :: "size_t \<Rightarrow> MatchPairs \<Rightarrow> bool" where
  "checkAgainst inputLength m =
     list_all (\<lambda>p. check p \<and>
                 (start p = -1 \<or>
                  (sint (start p) \<le> int (unat inputLength) \<and> sint (limit p) \<le> int (unat inputLength))))
       (pairsOf m)"

text \<open>A scoped buffer as its constructor leaves it: no storage yet, over a given arena.\<close>

definition ScopedMatchPairs :: "Allocator \<Rightarrow> (nat \<Rightarrow> MatchPair) \<Rightarrow> MatchPairs" where
  "ScopedMatchPairs lifoAlloc mem =
     \<lparr>pairCount' = 0, pairs' = None, memory = mem, discipline = Scoped, lifoScope' = lifoAlloc,
      vec' = \<lparr>vec_begin = 0, vec_length = 0, vec_capacity = 0\<rparr>,
      heap' = \<lparr>latest = 0, avail = 0\<rparr>\<rparr>"

text \<open>A scoped buffer over an arena that has 16 bytes left, room for two pairs.\<close>

definition smallBuffer :: MatchPairs where
  "smallBuffer = ScopedMatchPairs \<lparr>latest = 1024, avail = 16\<rparr> (\<lambda>_. \<lparr>start = 7, limit = 9\<rparr>)"

section \<open>The shared pattern record\<close>

datatype CompilationMode = Normal | MatchOnly

datatype RegExpRunStatus =
  RegExpRunStatus_Error | RegExpRunStatus_Success | RegExpRunStatus_Success_NotFound

text \<open>
  A compilation slot holds native code, bytecode or neither; code is known by a handle.
  What the code generator returns (\<open>irregexp::RegExpCode\<close>) has the same two members.
\<close>

record RegExpCompilation =
  jitCode :: "nat option"
  byteCode :: "nat option"

type_synonym RegExpCode = RegExpCompilation

text \<open>
  The members of \<open>RegExpShared\<close> that the operations below read or write (the vector of
  character-class tables, which only the code generator and the destructor touch, is
  left out).
\<close>

record RegExpShared =
  source :: JSAtom
  flags :: RegExpFlag
  parenCount :: nat
  canStringMatch :: bool
  marked' :: bool
  compilationArray :: "RegExpCompilation list"

definition RegExpShared :: "JSAtom \<Rightarrow> RegExpFlag \<Rightarrow> RegExpShared" where
  "RegExpShared src flgs =
     \<lparr>source = src, flags = flgs, parenCount = 0, canStringMatch = False, marked' = False,
      compilationArray = [\<lparr>jitCode = None, byteCode = None\<rparr>,
                          \<lparr>jitCode = None, byteCode = None\<rparr>,
                          \<lparr>jitCode = None, byteCode = None\<rparr>,
                          \<lparr>jitCode = None, byteCode = None\<rparr>]\<rparr>"

text \<open>
  Modelled from the spec: the inline members of \<open>RegExpShared\<close> declared in
  \<open>vm/RegExpObject.h\<close>, which is not among the sources. The flag tests read the bits of
  \<open>flags\<close>; the buffer length is the capture count plus one; there is one compilation slot
  for each execution mode and each character width, and a slot counts as compiled once it
  holds native code or bytecode.
\<close>

definition ignoreCase :: "RegExpShared \<Rightarrow> bool" where
  "ignoreCase r = (flags r AND IgnoreCaseFlag \<noteq> 0)"

definition global :: "RegExpShared \<Rightarrow> bool" where
  "global r = (flags r AND GlobalFlag \<noteq> 0)"

definition multiline :: "RegExpShared \<Rightarrow> bool" where
  "multiline r = (flags r AND MultilineFlag \<noteq> 0)"

definition sticky :: "RegExpShared \<Rightarrow> bool" where
  "sticky r = (flags r AND StickyFlag \<noteq> 0)"

definition pairCount :: "RegExpShared \<Rightarrow> nat" where
  "pairCount r = parenCount r + 1"

fun CompilationIndex :: "CompilationMode \<Rightarrow> bool \<Rightarrow> nat" where
  "CompilationIndex Normal latin1 = (if latin1 then 0 else 1)"
| "CompilationIndex MatchOnly latin1 = (if latin1 then 2 else 3)"

definition compilation :: "RegExpShared \<Rightarrow> CompilationMode \<Rightarrow> bool \<Rightarrow> RegExpCompilation" where
  "compilation r mode latin1 = compilationArray r ! CompilationIndex mode latin1"

definition compiled :: "RegExpCompilation \<Rightarrow> bool" where
  "compiled c = (jitCode c \<noteq> None \<or> byteCode c \<noteq> None)"

definition isCompiled :: "RegExpShared \<Rightarrow> CompilationMode \<Rightarrow> bool \<Rightarrow> bool" where
  "isCompiled r mode latin1 = compiled (compilation r mode latin1)"

definition empty_code :: "RegExpCode \<Rightarrow> bool" where
  "empty_code c = (jitCode c = None \<and> byteCode c = None)"

text \<open>
  Modelled from the spec: \<open>StringHasRegExpMetaChars\<close> is declared outside the sources. The
  spec speaks of a pattern that contains no regex metacharacters; the metacharacters are
  taken to be the syntax characters of the pattern grammar,
  \<open>^ $ \ . * + ? ( ) [ ] { } |\<close>, given here by their codes.
\<close>

definition IsRegExpMetaChar :: "nat \<Rightarrow> bool" where
  "IsRegExpMetaChar c =
     (c \<in> {94, 36, 92, 46, 42, 43, 63, 40, 41, 91, 93, 123, 125, 124})"

definition StringHasRegExpMetaChars :: "JSLinearString \<Rightarrow> bool" where
  "StringHasRegExpMetaChars str = list_ex IsRegExpMetaChar (charCodes str)"

text \<open>
  Modelled from the spec: \<open>StringFindPattern\<close> is declared outside the sources. In the
  spec's words it is a direct substring search for the source text starting at the given
  offset; the result is the index of the first occurrence at or after the offset, or \<open>-1\<close>.
\<close>

fun StringMatch :: "'a list \<Rightarrow> 'a list \<Rightarrow> nat option" where
  "StringMatch [] pat = (if pat = [] then Some 0 else None)"
| "StringMatch (c # text) pat =
     (if take (length pat) (c # text) = pat then Some 0
      else map_option Suc (StringMatch text pat))"

definition StringFindPattern :: "JSLinearString \<Rightarrow> JSLinearString \<Rightarrow> size_t \<Rightarrow> int32" where
  "StringFindPattern text pat startIdx =
     (if unat startIdx \<le> length_str text then
        (case StringMatch (drop (unat startIdx) (twoByteContent text)) (twoByteContent pat) of
           None \<Rightarrow> -1
         | Some i \<Rightarrow> of_nat (unat startIdx + i))
      else -1)"

text \<open>
  An atom is made of the content alone: Latin-1 when every code unit fits, two-byte
  otherwise. \<open>finishAtom\<close> can fail for want of memory.
\<close>

definition AtomizeChars :: "char16_t list \<Rightarrow> JSAtom" where
  "AtomizeChars cs =
     (if list_all (\<lambda>c. unat c < 256) cs then Latin1Str (map ucast cs) else TwoByteStr cs)"

definition finishAtom :: "StringBuffer \<Rightarrow> JSAtom option" where
  "finishAtom sb =
     (if length (sb_chars sb) \<le> sb_limit sb then Some (AtomizeChars (sb_chars sb)) else None)"

text \<open>The characters a pointer into a string reaches, \<open>n\<close> code units past its start.\<close>

fun dropChars :: "nat \<Rightarrow> JSLinearString \<Rightarrow> JSLinearString" where
  "dropChars n (Latin1Str cs) = Latin1Str (drop n cs)"
| "dropChars n (TwoByteStr cs) = TwoByteStr (drop n cs)"

subsection \<open>The collaborators\<close>

text \<open>
  The pattern parser, the code generator, the two execution engines and the interrupt
  machinery of the runtime are not part of the sources. They are parameters: a record of
  functions over a runtime state \<open>'rt\<close> that the engines and the interrupt callback may
  change.

  \<^item> \<open>ParsePattern pattern multiline matchOnly\<close> yields the compile data, \<open>None\<close> on a
    syntax error.
  \<^item> \<open>CompilePattern data input ignoreCase latin1 matchOnly\<close> yields the generated code,
    empty on failure.
  \<^item> \<open>InterpretCode rt byteCode chars start length matches\<close> and
    \<open>ExecuteCode rt jitCode chars start length matches\<close> run a match over the characters
    \<open>chars\<close> points at; they hand back the status and the buffer they were given, as they
    have left it.
  \<^item> \<open>interrupt rt\<close> reads the runtime's interrupt flag, \<open>InvokeInterruptCallback\<close> polls
    the embedding (\<open>False\<close> asks for termination), \<open>js_ReportOverRecursed\<close> records the
    error, \<open>inputCharsInit\<close> tells whether the stable copy of the input could be made.
  \<^item> \<open>bufferRoom\<close> is the room the context has for a string buffer.
\<close>

record RegExpCompileData =
  capture_count :: nat
  tree :: nat

record 'rt Collaborators =
  ParsePattern :: "JSAtom \<Rightarrow> bool \<Rightarrow> bool \<Rightarrow> RegExpCompileData option"
  CompilePattern :: "RegExpCompileData \<Rightarrow> JSLinearString \<Rightarrow> bool \<Rightarrow> bool \<Rightarrow> bool \<Rightarrow> RegExpCode"
  InterpretCode :: "'rt \<Rightarrow> nat \<Rightarrow> JSLinearString \<Rightarrow> size_t \<Rightarrow> size_t \<Rightarrow> MatchPairs option
                      \<Rightarrow> (RegExpRunStatus \<times> MatchPairs option) \<times> 'rt"
  ExecuteCode :: "'rt \<Rightarrow> nat option \<Rightarrow> JSLinearString \<Rightarrow> size_t \<Rightarrow> size_t \<Rightarrow> MatchPairs option
                      \<Rightarrow> (RegExpRunStatus \<times> MatchPairs option) \<times> 'rt"
  interrupt :: "'rt \<Rightarrow> bool"
  InvokeInterruptCallback :: "'rt \<Rightarrow> bool \<times> 'rt"
  js_ReportOverRecursed :: "'rt \<Rightarrow> 'rt"
  inputCharsInit :: "'rt \<Rightarrow> JSLinearString \<Rightarrow> bool"
  bufferRoom :: nat

subsection \<open>Compilation\<close>

text \<open>\<open>RegExpShared::compile(cx, pattern, input, mode)\<close>, the overload that is given the pattern.\<close>

definition compile_pattern ::
  "'rt Collaborators \<Rightarrow> JSAtom \<Rightarrow> JSLinearString \<Rightarrow> CompilationMode \<Rightarrow> RegExpShared
     \<Rightarrow> (bool \<times> RegExpShared) outcome" where
  "compile_pattern env pattern input mode r =
     (if \<not> ignoreCase r \<and> \<not> StringHasRegExpMetaChars pattern then
        Returns (True, r\<lparr>canStringMatch := True, parenCount := 0\<rparr>)
      else
        (case ParsePattern env pattern (multiline r) (mode = MatchOnly) of
           None \<Rightarrow> Returns (False, r)
         | Some data \<Rightarrow>
             (let r1 = r\<lparr>parenCount := capture_count data\<rparr>;
                  code = CompilePattern env data input (ignoreCase r1)
                           (hasLatin1Chars input) (mode = MatchOnly)
              in if empty_code code then Returns (False, r1)
                 else if \<not> (jitCode code = None \<or> byteCode code = None) then AssertionFailure
                 else Returns (True,
                        r1\<lparr>compilationArray :=
                             (compilationArray r1)
                               [CompilationIndex mode (hasLatin1Chars input) :=
                                  \<lparr>jitCode = jitCode code, byteCode = byteCode code\<rparr>]\<rparr>))))"

text \<open>
  \<open>RegExpShared::compile(cx, input, mode)\<close>: a sticky pattern is compiled from the source
  wrapped into \<open>^(?:\<close> and \<open>)\<close>.
\<close>

definition compile ::
  "'rt Collaborators \<Rightarrow> JSLinearString \<Rightarrow> CompilationMode \<Rightarrow> RegExpShared
     \<Rightarrow> (bool \<times> RegExpShared) outcome" where
  "compile env input mode r =
     (if \<not> sticky r then compile_pattern env (source r) input mode r
      else
        (let prefix = cstr ''^(?:'';
             postfix = cstr '')'';
             sb0 = \<lparr>sb_chars = [], sb_limit = bufferRoom env\<rparr>
         in case reserve (length prefix + length_str (source r) + length postfix) sb0 of
              None \<Rightarrow> Returns (False, r)
            | Some sb1 \<Rightarrow>
                (case append_sb (twoByteContent (source r)) (infallibleAppend prefix sb1) of
                   None \<Rightarrow> Returns (False, r)
                 | Some sb2 \<Rightarrow>
                     (case finishAtom (infallibleAppend postfix sb2) of
                        None \<Rightarrow> Returns (False, r)
                      | Some fakeySource \<Rightarrow> compile_pattern env fakeySource input mode r))))"

definition compileIfNecessary ::
  "'rt Collaborators \<Rightarrow> JSLinearString \<Rightarrow> CompilationMode \<Rightarrow> RegExpShared
     \<Rightarrow> (bool \<times> RegExpShared) outcome" where
  "compileIfNecessary env input mode r =
     (if isCompiled r mode (hasLatin1Chars input) \<or> canStringMatch r then Returns (True, r)
      else compile env input mode r)"

subsection \<open>Execution\<close>

text \<open>
  The sticky emulation at the head of \<open>RegExpShared::execute\<close>: from whether the pattern is
  sticky, the input length and the \<open>start\<close> argument, the values of \<open>charsOffset\<close>,
  \<open>length\<close>, \<open>displacement\<close> and \<open>start\<close> that the rest of the function uses. All four are
  \<open>size_t\<close>, and the subtraction is the unsigned one. (The argument \<open>start\<close> is written
  \<open>start0\<close> and the local \<open>length\<close> is written \<open>len\<close>, the plain names being taken.)
\<close>

definition stickyWindow :: "bool \<Rightarrow> size_t \<Rightarrow> size_t \<Rightarrow> size_t \<times> size_t \<times> size_t \<times> size_t" where
  "stickyWindow isSticky inputLength start0 =
     (let charsOffset = 0; len = inputLength; displacement = 0
      in if isSticky then (charsOffset + start0, len - start0, start0, 0)
         else (charsOffset, len, displacement, start0))"

text \<open>
  The branch for a pattern that can be matched as a string. \<open>(*matches)[0]\<close> asserts
  that the index is below \<open>pairCount_\<close> and writes through \<open>pairs_\<close>.
\<close>

definition execute_stringMatch ::
  "RegExpShared \<Rightarrow> JSLinearString \<Rightarrow> size_t \<Rightarrow> size_t \<Rightarrow> size_t \<Rightarrow> MatchPairs option
     \<Rightarrow> (RegExpRunStatus \<times> MatchPairs option) outcome" where
  "execute_stringMatch r input start0 charsOffset origLength matches =
     (if pairCount r \<noteq> 1 then AssertionFailure
      else
        (let res = StringFindPattern input (source r) (start0 + charsOffset)
         in if res = -1 then Returns (RegExpRunStatus_Success_NotFound, matches)
            else
              (case matches of
                 None \<Rightarrow> Returns (RegExpRunStatus_Success, None)
               | Some m \<Rightarrow>
                   if \<not> 0 < pairCount' m then AssertionFailure
                   else
                     (case pairs' m of
                        None \<Rightarrow> NullDereference
                      | Some p \<Rightarrow>
                          (let m' = m\<lparr>memory := (memory m)
                                        (p := \<lparr>start = res,
                                               limit = res + of_nat (length_str (source r))\<rparr>)\<rparr>
                           in if \<not> checkAgainst origLength m' then AssertionFailure
                              else Returns (RegExpRunStatus_Success, Some m'))))))"

text \<open>
  The two statements \<open>matches->displace(displacement); matches->checkAgainst(origLength);\<close>
  that follow a match found by either engine.
\<close>

definition displaceAndCheck :: "size_t \<Rightarrow> size_t \<Rightarrow> MatchPairs option \<Rightarrow> MatchPairs option outcome" where
  "displaceAndCheck displacement origLength matches =
     (case matches of
        None \<Rightarrow> Returns None
      | Some m \<Rightarrow>
          (case displace displacement m of
             Returns m' \<Rightarrow> if \<not> checkAgainst origLength m' then AssertionFailure else Returns (Some m')
           | AssertionFailure \<Rightarrow> AssertionFailure
           | NullDereference \<Rightarrow> NullDereference))"

text \<open>The branch for a pattern compiled to bytecode: one run of the interpreter.\<close>

definition execute_byteCode ::
  "'rt Collaborators \<Rightarrow> 'rt \<Rightarrow> nat \<Rightarrow> JSLinearString \<Rightarrow> size_t \<Rightarrow> size_t \<Rightarrow> size_t \<Rightarrow> size_t
     \<Rightarrow> size_t \<Rightarrow> MatchPairs option \<Rightarrow> ((RegExpRunStatus \<times> MatchPairs option) \<times> 'rt) outcome" where
  "execute_byteCode env rt bc input charsOffset start0 len displacement origLength matches =
     (if \<not> inputCharsInit env rt input then Returns ((RegExpRunStatus_Error, matches), rt)
      else
        (case InterpretCode env rt bc (dropChars (unat charsOffset) input) start0 len matches of
           ((result, matches1), rt1) \<Rightarrow>
             if result = RegExpRunStatus_Success \<and> matches \<noteq> None then
               (case displaceAndCheck displacement origLength matches1 of
                  Returns matches2 \<Rightarrow> Returns ((result, matches2), rt1)
                | AssertionFailure \<Rightarrow> AssertionFailure
                | NullDereference \<Rightarrow> NullDereference)
             else Returns ((result, matches1), rt1)))"

text \<open>
  The \<open>while (true)\<close> loop around the native code. It has no bound, so it is a partial
  function: \<open>None\<close> is a loop that never leaves. A result \<open>Some\<close> carries the status with
  which the loop is left (by \<open>return\<close> for an error or no match, by \<open>break\<close> for a match).
\<close>

partial_function (option) execute_jit_loop ::
  "'rt Collaborators \<Rightarrow> nat option \<Rightarrow> JSLinearString \<Rightarrow> size_t \<Rightarrow> size_t \<Rightarrow> MatchPairs option
     \<Rightarrow> 'rt \<Rightarrow> ((RegExpRunStatus \<times> MatchPairs option) \<times> 'rt) option" where
  "execute_jit_loop env code chars start0 len matches rt =
     (case ExecuteCode env rt code chars start0 len matches of
        ((result, matches1), rt1) \<Rightarrow>
          if result = RegExpRunStatus_Error then
            (if interrupt env rt1 then
               (case InvokeInterruptCallback env rt1 of
                  (ok, rt2) \<Rightarrow>
                    if \<not> ok then Some ((RegExpRunStatus_Error, matches1), rt2)
                    else execute_jit_loop env code chars start0 len matches1 rt2)
             else Some ((RegExpRunStatus_Error, matches1), js_ReportOverRecursed env rt1))
          else if result = RegExpRunStatus_Success_NotFound
          then Some ((RegExpRunStatus_Success_NotFound, matches1), rt1)
          else Some ((RegExpRunStatus_Success, matches1), rt1))"

declare execute_jit_loop.simps [code]

text \<open>
  \<open>RegExpShared::execute\<close>. The result is the status together with the record, the buffer
  and the runtime state as the call leaves them.
\<close>

definition execute ::
  "'rt Collaborators \<Rightarrow> 'rt \<Rightarrow> RegExpShared \<Rightarrow> JSLinearString \<Rightarrow> size_t \<Rightarrow> MatchPairs option
     \<Rightarrow> (RegExpRunStatus \<times> RegExpShared \<times> MatchPairs option \<times> 'rt) outcome option" where
  "execute env rt r input start0 matches =
     (let mode = (if matches \<noteq> None then Normal else MatchOnly) in
      case compileIfNecessary env input mode r of
        AssertionFailure \<Rightarrow> Some AssertionFailure
      | NullDereference \<Rightarrow> Some NullDereference
      | Returns (False, r1) \<Rightarrow> Some (Returns (RegExpRunStatus_Error, r1, matches, rt))
      | Returns (True, r1) \<Rightarrow>
          (case (case matches of
                   None \<Rightarrow> Returns (True, None)
                 | Some m \<Rightarrow> map_outcome (\<lambda>(ok, m1). (ok, Some m1))
                               (allocOrExpandArray (pairCount r1) m)) of
             AssertionFailure \<Rightarrow> Some AssertionFailure
           | NullDereference \<Rightarrow> Some NullDereference
           | Returns (False, matches1) \<Rightarrow> Some (Returns (RegExpRunStatus_Error, r1, matches1, rt))
           | Returns (True, matches1) \<Rightarrow>
               (case stickyWindow (sticky r1) (of_nat (length_str input)) start0 of
                  (charsOffset, len, displacement, start1) \<Rightarrow>
                    (let origLength = of_nat (length_str input);
                         latin1 = hasLatin1Chars input
                     in if canStringMatch r1 then
                          Some (map_outcome (\<lambda>(result, matches2). (result, r1, matches2, rt))
                                  (execute_stringMatch r1 input start1 charsOffset origLength matches1))
                        else
                          (case byteCode (compilation r1 mode latin1) of
                             Some bc \<Rightarrow>
                               Some (map_outcome (\<lambda>((result, matches2), rt1). (result, r1, matches2, rt1))
                                       (execute_byteCode env rt bc input charsOffset start1 len
                                          displacement origLength matches1))
                           | None \<Rightarrow>
                               (case execute_jit_loop env (jitCode (compilation r1 mode latin1))
                                       (dropChars (unat charsOffset) input) start1 len matches1 rt of
                                  None \<Rightarrow> None
                                | Some ((result, matches2), rt1) \<Rightarrow>
                                    if result = RegExpRunStatus_Success then
                                      Some (map_outcome (\<lambda>matches3. (RegExpRunStatus_Success, r1, matches3, rt1))
                                              (if matches \<noteq> None
                                               then displaceAndCheck displacement origLength matches2
                                               else Returns matches2))
                                    else Some (Returns (result, r1, matches2, rt1))))))))"

subsection \<open>What displacement and the bounds check mean for one pair\<close>

text \<open>
  The vocabulary of the statements about offsets: a pair with \<open>disp\<close> added to each of its
  offsets that is not negative, and a pair whose offsets are both \<open>-1\<close> or form a range
  within an input of \<open>n\<close> characters.
\<close>

definition displacePair :: "size_t \<Rightarrow> MatchPair \<Rightarrow> MatchPair" where
  "displacePair disp p =
     \<lparr>start = (if start p <s 0 then start p else start p + ucast disp),
      limit = (if limit p <s 0 then limit p else limit p + ucast disp)\<rparr>"

definition withinInput :: "nat \<Rightarrow> MatchPair \<Rightarrow> bool" where
  "withinInput n p =
     ((start p = -1 \<and> limit p = -1) \<or>
      (0 \<le> sint (start p) \<and> sint (start p) \<le> sint (limit p) \<and> sint (limit p) \<le> int n))"

subsection \<open>When a record may be matched as a string\<close>

text \<open>
  A record is eligible for the literal path when it is not sticky, does not ignore case and
  has a source free of metacharacters. The invariant ties the member \<open>canStringMatch\<close> to
  eligibility: it is only set on an eligible record, whose capture count is then 0, and an
  eligible record never has a compiled slot.
\<close>

definition literalEligible :: "RegExpShared \<Rightarrow> bool" where
  "literalEligible r =
     (\<not> sticky r \<and> \<not> ignoreCase r \<and> \<not> StringHasRegExpMetaChars (source r))"

definition literalInvariant :: "RegExpShared \<Rightarrow> bool" where
  "literalInvariant r =
     ((\<not> canStringMatch r \<or> (literalEligible r \<and> parenCount r = 0)) \<and>
      (\<not> literalEligible r \<or> list_all (\<lambda>c. \<not> compiled c) (compilationArray r)) \<and>
      length (compilationArray r) = 4)"

section \<open>Sample collaborators\<close>

text \<open>
  Concrete collaborators on which the general statements are tried out. The first stands for
  the compiled form of the sticky pattern \<open>a\<close>, that is of \<open>^(?:a)\<close>: its parser and code
  generator accept anything and produce bytecode, and its interpreter reports a match of
  one character at position 0 of the characters it is given when that character is \<open>a\<close> and
  the search starts there, and reports no match otherwise. Its runtime state is trivial.
\<close>

fun firstCharIsA :: "JSLinearString \<Rightarrow> bool" where
  "firstCharIsA (Latin1Str cs) = (case cs of [] \<Rightarrow> False | c # _ \<Rightarrow> c = 97)"
| "firstCharIsA (TwoByteStr cs) = (case cs of [] \<Rightarrow> False | c # _ \<Rightarrow> c = 97)"

definition writeFirstPair :: "MatchPair \<Rightarrow> MatchPairs option \<Rightarrow> MatchPairs option" where
  "writeFirstPair pr matches =
     (case matches of
        None \<Rightarrow> None
      | Some m \<Rightarrow>
          (case pairs' m of
             None \<Rightarrow> Some m
           | Some p \<Rightarrow> Some (m\<lparr>memory := (memory m)(p := pr)\<rparr>)))"

definition anchoredA_run ::
  "unit \<Rightarrow> JSLinearString \<Rightarrow> size_t \<Rightarrow> size_t \<Rightarrow> MatchPairs option
     \<Rightarrow> (RegExpRunStatus \<times> MatchPairs option) \<times> unit" where
  "anchoredA_run rt chars start0 len matches =
     (if start0 = 0 \<and> 0 < len \<and> firstCharIsA chars
      then ((RegExpRunStatus_Success, writeFirstPair \<lparr>start = 0, limit = 1\<rparr> matches), rt)
      else ((RegExpRunStatus_Success_NotFound, matches), rt))"

definition anchoredA :: "unit Collaborators" where
  "anchoredA =
     \<lparr>ParsePattern = (\<lambda>pattern ml matchOnly. Some \<lparr>capture_count = 0, tree = 0\<rparr>),
      CompilePattern = (\<lambda>data input ic latin1 matchOnly. \<lparr>jitCode = None, byteCode = Some 1\<rparr>),
      InterpretCode = (\<lambda>rt bc. anchoredA_run rt),
      ExecuteCode = (\<lambda>rt code. anchoredA_run rt),
      interrupt = (\<lambda>rt. False),
      InvokeInterruptCallback = (\<lambda>rt. (True, rt)),
      js_ReportOverRecursed = (\<lambda>rt. rt),
      inputCharsInit = (\<lambda>rt input. True),
      bufferRoom = 64\<rparr>"

text \<open>
  The same pattern compiled to native code. The runtime state of these collaborators is one
  flag, an interrupt is pending: while it is up the native engine gives up with an error and
  leaves the buffer as it is, and the interrupt callback lowers it and permits continuation.
\<close>

definition anchoredA_native :: "bool Collaborators" where
  "anchoredA_native =
     \<lparr>ParsePattern = (\<lambda>pattern ml matchOnly. Some \<lparr>capture_count = 0, tree = 0\<rparr>),
      CompilePattern = (\<lambda>data input ic latin1 matchOnly. \<lparr>jitCode = Some 1, byteCode = None\<rparr>),
      InterpretCode = (\<lambda>rt bc chars start0 len matches.
                         (fst (anchoredA_run () chars start0 len matches), rt)),
      ExecuteCode = (\<lambda>rt code chars start0 len matches.
                       if rt then ((RegExpRunStatus_Error, matches), rt)
                       else (fst (anchoredA_run () chars start0 len matches), rt)),
      interrupt = (\<lambda>rt. rt),
      InvokeInterruptCallback = (\<lambda>rt. (True, False)),
      js_ReportOverRecursed = (\<lambda>rt. rt),
      inputCharsInit = (\<lambda>rt input. True),
      bufferRoom = 64\<rparr>"

text \<open>
  The second has a scripted runtime: the list of what the successive runs of the engine
  report (a status, and whether the interrupt flag is up afterwards), what the interrupt
  callback answers, and counters of the engine runs and of the polls of the callback.
  Either engine takes the head of the script; a run past the end of the script reports no
  match.
\<close>

record Scripted =
  script :: "(RegExpRunStatus \<times> bool) list"
  interrupted :: bool
  callbackAnswer :: bool
  engineRuns :: nat
  callbackPolls :: nat
  overRecursed :: bool

definition scripted_run ::
  "Scripted \<Rightarrow> MatchPairs option \<Rightarrow> (RegExpRunStatus \<times> MatchPairs option) \<times> Scripted" where
  "scripted_run rt matches =
     (case script rt of
        [] \<Rightarrow> ((RegExpRunStatus_Success_NotFound, matches), rt\<lparr>engineRuns := engineRuns rt + 1\<rparr>)
      | (status, intr) # rest \<Rightarrow>
          ((status, matches),
           rt\<lparr>script := rest, interrupted := intr, engineRuns := engineRuns rt + 1\<rparr>))"

definition scripted :: "bool \<Rightarrow> Scripted Collaborators" where
  "scripted emitByteCode =
     \<lparr>ParsePattern = (\<lambda>pattern ml matchOnly. Some \<lparr>capture_count = 0, tree = 0\<rparr>),
      CompilePattern = (\<lambda>data input ic latin1 matchOnly.
                          if emitByteCode then \<lparr>jitCode = None, byteCode = Some 1\<rparr>
                          else \<lparr>jitCode = Some 1, byteCode = None\<rparr>),
      InterpretCode = (\<lambda>rt bc chars start0 len matches. scripted_run rt matches),
      ExecuteCode = (\<lambda>rt code chars start0 len matches. scripted_run rt matches),
      interrupt = interrupted,
      InvokeInterruptCallback =
        (\<lambda>rt. (callbackAnswer rt, rt\<lparr>interrupted := False, callbackPolls := callbackPolls rt + 1\<rparr>)),
      js_ReportOverRecursed = (\<lambda>rt. rt\<lparr>overRecursed := True\<rparr>),
      inputCharsInit = (\<lambda>rt input. True),
      bufferRoom = 64\<rparr>"

definition scriptedStart :: "(RegExpRunStatus \<times> bool) list \<Rightarrow> bool \<Rightarrow> Scripted" where
  "scriptedStart sc answer =
     \<lparr>script = sc, interrupted = False, callbackAnswer = answer, engineRuns = 0,
      callbackPolls = 0, overRecursed = False\<rparr>"

text \<open>A scoped buffer over an arena of 64 bytes whose memory holds stale pairs.\<close>

definition sampleBuffer :: MatchPairs where
  "sampleBuffer = ScopedMatchPairs \<lparr>latest = 1024, avail = 64\<rparr> (\<lambda>_. \<lparr>start = 7, limit = 9\<rparr>)"

text \<open>
  The record of the sticky pattern \<open>a\<close> once the first collaborators have compiled it for
  captures over Latin-1 input, and the sample buffer once it holds one pair.
\<close>

definition compiledStickyA :: RegExpShared where
  "compiledStickyA =
     \<lparr>source = ascii ''a'', flags = StickyFlag, parenCount = 0, canStringMatch = False,
      marked' = False,
      compilationArray = [\<lparr>jitCode = None, byteCode = Some 1\<rparr>,
                          \<lparr>jitCode = None, byteCode = None\<rparr>,
                          \<lparr>jitCode = None, byteCode = None\<rparr>,
                          \<lparr>jitCode = None, byteCode = None\<rparr>]\<rparr>"

definition sampleBuffer1 :: MatchPairs where
  "sampleBuffer1 =
     sampleBuffer\<lparr>pairs' := Some 1024, lifoScope' := \<lparr>latest = 1032, avail = 56\<rparr>,
                  pairCount' := 1\<rparr>"

text \<open>The same record when it has been compiled to native code.\<close>

definition compiledStickyA_native :: RegExpShared where
  "compiledStickyA_native =
     \<lparr>source = ascii ''a'', flags = StickyFlag, parenCount = 0, canStringMatch = False,
      marked' = False,
      compilationArray = [\<lparr>jitCode = Some 1, byteCode = None\<rparr>,
                          \<lparr>jitCode = None, byteCode = None\<rparr>,
                          \<lparr>jitCode = None, byteCode = None\<rparr>,
                          \<lparr>jitCode = None, byteCode = None\<rparr>]\<rparr>"

text \<open>The same record when it has been compiled for a match without captures instead.\<close>

definition compiledStickyA_MatchOnly :: RegExpShared where
  "compiledStickyA_MatchOnly =
     \<lparr>source = ascii ''a'', flags = StickyFlag, parenCount = 0, canStringMatch = False,
      marked' = False,
      compilationArray = [\<lparr>jitCode = None, byteCode = None\<rparr>,
                          \<lparr>jitCode = None, byteCode = None\<rparr>,
                          \<lparr>jitCode = None, byteCode = Some 1\<rparr>,
                          \<lparr>jitCode = None, byteCode = None\<rparr>]\<rparr>"

text \<open>
  The record of the pattern \<open>a+\<close> once the scripted collaborators have compiled it for a
  match without captures over Latin-1 input, to bytecode or to native code.
\<close>

definition compiledAPlus :: "bool \<Rightarrow> RegExpShared" where
  "compiledAPlus emitByteCode =
     \<lparr>source = ascii ''a+'', flags = 0, parenCount = 0, canStringMatch = False,
      marked' = False,
      compilationArray = [\<lparr>jitCode = None, byteCode = None\<rparr>,
                          \<lparr>jitCode = None, byteCode = None\<rparr>,
                          (if emitByteCode then \<lparr>jitCode = None, byteCode = Some 1\<rparr>
                           else \<lparr>jitCode = Some 1, byteCode = None\<rparr>),
                          \<lparr>jitCode = None, byteCode = None\<rparr>]\<rparr>"

section \<open>The compartment's registry of shared records\<close>

text \<open>
  Shared records live on the heap and the registry holds pointers to them: the store maps
  an address to the record allocated there (\<open>None\<close> for an address that is free) and
  hands out the next address. \<open>new_\<close> can fail for want of memory, and so can growing the
  hash set; the outcome of each is an argument (\<open>newOk\<close>, \<open>addOk\<close>).
\<close>

record Store =
  cells :: "nat \<Rightarrow> RegExpShared option"
  nextFree :: nat

record RegExpCompartment =
  set' :: "nat list"
  matchResultTemplateObject' :: "nat option"

text \<open>
  What the collector tells: the zone's need for an incremental barrier and whether its
  barrier tracer is a marking tracer, the about-to-be-finalized tests for strings, native
  code and objects, and whether the heap is being compacted.
\<close>

record Collector =
  needsIncrementalBarrier :: bool
  barrierTracerIsMarking :: bool
  IsStringAboutToBeFinalized :: "JSAtom \<Rightarrow> bool"
  IsJitCodeAboutToBeFinalized :: "nat \<Rightarrow> bool"
  IsObjectAboutToBeFinalized :: "nat \<Rightarrow> bool"
  isHeapCompacting :: bool

text \<open>
  \<open>RegExpShared::trace\<close>, as far as the record itself goes: a marking tracer sets the mark
  (marking the source string and the native code is the collector's own business).
\<close>

definition trace :: "bool \<Rightarrow> RegExpShared \<Rightarrow> RegExpShared" where
  "trace isMarkingTracer shared = (if isMarkingTracer then shared\<lparr>marked' := True\<rparr> else shared)"

definition MaybeTraceRegExpShared :: "Collector \<Rightarrow> nat \<Rightarrow> Store \<Rightarrow> Store" where
  "MaybeTraceRegExpShared gc a st =
     (if needsIncrementalBarrier gc then
        (case cells st a of
           None \<Rightarrow> st
         | Some shared \<Rightarrow> st\<lparr>cells := (cells st)(a \<mapsto> trace (barrierTracerIsMarking gc) shared)\<rparr>)
      else st)"

text \<open>
  Modelled from the spec: the hash policy of the set (\<open>RegExpCompartment::Key\<close>) is declared
  in \<open>vm/RegExpObject.h\<close>, which is not among the sources. In the spec's words the registry
  is keyed by the pair of source text and flag bitset, compared by value; an entry matches
  a key when the record it points to has that source and those flags.
\<close>

definition keyMatches :: "Store \<Rightarrow> JSAtom \<Rightarrow> RegExpFlag \<Rightarrow> nat \<Rightarrow> bool" where
  "keyMatches st src flgs a =
     (case cells st a of None \<Rightarrow> False | Some shared \<Rightarrow> source shared = src \<and> flags shared = flgs)"

definition lookupForAdd :: "JSAtom \<Rightarrow> RegExpFlag \<Rightarrow> RegExpCompartment \<Rightarrow> Store \<Rightarrow> nat option" where
  "lookupForAdd src flgs reg st = find (keyMatches st src flgs) (set' reg)"

text \<open>
  \<open>RegExpCompartment::get(cx, source, flags, g)\<close>. The result is the pointer the guard is
  initialised with, or the out-of-memory report of a failed call.
\<close>

definition get ::
  "Collector \<Rightarrow> bool \<Rightarrow> bool \<Rightarrow> JSAtom \<Rightarrow> RegExpFlag \<Rightarrow> RegExpCompartment \<times> Store
     \<Rightarrow> (JSErrorReport + nat) \<times> RegExpCompartment \<times> Store" where
  "get gc newOk addOk src flgs state =
     (case state of
        (reg, st) \<Rightarrow>
          (case lookupForAdd src flgs reg st of
             Some p \<Rightarrow> (Inr p, reg, MaybeTraceRegExpShared gc p st)
           | None \<Rightarrow>
               if \<not> newOk
               then (Inl \<lparr>errorNumber = JSMSG_OUT_OF_MEMORY, messageArg = []\<rparr>, reg, st)
               else
                 (let shared = nextFree st;
                      st1 = st\<lparr>cells := (cells st)(shared \<mapsto> RegExpShared src flgs),
                               nextFree := nextFree st + 1\<rparr>
                  in if \<not> addOk
                     then (Inl \<lparr>errorNumber = JSMSG_OUT_OF_MEMORY, messageArg = []\<rparr>, reg,
                           st1\<lparr>cells := (cells st1)(shared := None)\<rparr>)
                     else (Inr shared, reg\<lparr>set' := set' reg @ [shared]\<rparr>,
                           MaybeTraceRegExpShared gc shared st1))))"

text \<open>
  \<open>RegExpCompartment::sweep\<close>. The inner loop over the compilation slots lowers \<open>keep\<close>
  for native code that is about to be finalized; the outer loop walks the entries, clearing
  the mark of a record that stays and deleting the others. Reading through an entry whose
  record is gone is a fault.
\<close>

fun sweep_keep :: "Collector \<Rightarrow> bool \<Rightarrow> RegExpCompilation list \<Rightarrow> bool" where
  "sweep_keep gc keep [] = keep"
| "sweep_keep gc keep (slot # rest) =
     sweep_keep gc
       (case jitCode slot of
          None \<Rightarrow> keep
        | Some code \<Rightarrow> if IsJitCodeAboutToBeFinalized gc code then False else keep)
       rest"

fun sweep_loop :: "Collector \<Rightarrow> nat list \<Rightarrow> Store \<Rightarrow> (nat list \<times> Store) outcome" where
  "sweep_loop gc [] st = Returns ([], st)"
| "sweep_loop gc (e # es) st =
     (case cells st e of
        None \<Rightarrow> NullDereference
      | Some shared \<Rightarrow>
          (let keep = sweep_keep gc
                        (marked' shared \<and> \<not> IsStringAboutToBeFinalized gc (source shared))
                        (compilationArray shared)
           in if keep \<or> isHeapCompacting gc then
                (case sweep_loop gc es (st\<lparr>cells := (cells st)(e \<mapsto> shared\<lparr>marked' := False\<rparr>)\<rparr>) of
                   Returns (kept, st') \<Rightarrow> Returns (e # kept, st')
                 | AssertionFailure \<Rightarrow> AssertionFailure
                 | NullDereference \<Rightarrow> NullDereference)
              else sweep_loop gc es (st\<lparr>cells := (cells st)(e := None)\<rparr>)))"

definition sweep ::
  "Collector \<Rightarrow> RegExpCompartment \<times> Store \<Rightarrow> (RegExpCompartment \<times> Store) outcome" where
  "sweep gc state =
     (case state of
        (reg, st) \<Rightarrow>
          (case sweep_loop gc (set' reg) st of
             Returns (kept, st') \<Rightarrow>
               Returns (reg\<lparr>set' := kept,
                             matchResultTemplateObject' :=
                               (case matchResultTemplateObject' reg of
                                  None \<Rightarrow> None
                                | Some obj \<Rightarrow>
                                    if IsObjectAboutToBeFinalized gc obj then None else Some obj)\<rparr>,
                        st')
           | AssertionFailure \<Rightarrow> AssertionFailure
           | NullDereference \<Rightarrow> NullDereference))"

subsection \<open>A consistent registry, and which entries a sweep retains\<close>

text \<open>
  The registry is consistent when its entries are distinct addresses of live records
  handed out by the store, no two of which have the same source and flags. An entry is
  retained by a sweep when its record is marked, its source and native code are not about to
  be finalized, or when the heap is being compacted.
\<close>

definition registryOk :: "RegExpCompartment \<Rightarrow> Store \<Rightarrow> bool" where
  "registryOk reg st =
     (distinct (set' reg) \<and>
      list_all (\<lambda>e. e < nextFree st \<and> cells st e \<noteq> None) (set' reg) \<and>
      list_all (\<lambda>e. list_all (\<lambda>e'. e = e' \<or>
                  \<not> (map_option source (cells st e) = map_option source (cells st e') \<and>
                     map_option flags (cells st e) = map_option flags (cells st e')))
                (set' reg)) (set' reg))"

definition codeLive :: "Collector \<Rightarrow> RegExpShared \<Rightarrow> bool" where
  "codeLive gc shared =
     list_all (\<lambda>c. case jitCode c of None \<Rightarrow> True | Some code \<Rightarrow> \<not> IsJitCodeAboutToBeFinalized gc code)
       (compilationArray shared)"

definition retained :: "Collector \<Rightarrow> Store \<Rightarrow> nat \<Rightarrow> bool" where
  "retained gc st e =
     (case cells st e of
        None \<Rightarrow> False
      | Some shared \<Rightarrow>
          (marked' shared \<and> \<not> IsStringAboutToBeFinalized gc (source shared) \<and> codeLive gc shared)
          \<or> isHeapCompacting gc)"

text \<open>The store once \<open>get\<close> has allocated a fresh record for a key that was not found.\<close>

definition allocated :: "JSAtom \<Rightarrow> RegExpFlag \<Rightarrow> Store \<Rightarrow> Store" where
  "allocated src fl st =
     st\<lparr>cells := (cells st)(nextFree st \<mapsto> RegExpShared src fl), nextFree := nextFree st + 1\<rparr>"

text \<open>
  The store after a sweep over the entries \<open>es\<close>: the record of a retained entry with its
  mark cleared, nothing where the record of another entry was, and the rest as before.
\<close>

definition swept :: "Collector \<Rightarrow> nat list \<Rightarrow> Store \<Rightarrow> Store" where
  "swept gc es st =
     st\<lparr>cells := (\<lambda>a. if a \<in> set es
                        then (if retained gc st a
                              then map_option (\<lambda>r. r\<lparr>marked' := False\<rparr>) (cells st a) else None)
                        else cells st a)\<rparr>"

text \<open>An empty registry over an empty store, and a collector at rest.\<close>

definition emptyRegistry :: "RegExpCompartment \<times> Store" where
  "emptyRegistry =
     (\<lparr>set' = [], matchResultTemplateObject' = None\<rparr>, \<lparr>cells = (\<lambda>_. None), nextFree = 0\<rparr>)"

definition quietCollector :: Collector where
  "quietCollector =
     \<lparr>needsIncrementalBarrier = False, barrierTracerIsMarking = False,
      IsStringAboutToBeFinalized = (\<lambda>_. False), IsJitCodeAboutToBeFinalized = (\<lambda>_. False),
      IsObjectAboutToBeFinalized = (\<lambda>_. False), isHeapCompacting = False\<rparr>"

text \<open>
  A registry of two records, the first marked and the second not, with a template object;
  and a collector that finds that template object about to be finalized.
\<close>

definition sampleRegistry :: "RegExpCompartment \<times> Store" where
  "sampleRegistry =
     (\<lparr>set' = [0, 1], matchResultTemplateObject' = Some 7\<rparr>,
      \<lparr>cells = ((\<lambda>_. None)(0 \<mapsto> (RegExpShared (ascii ''a'') 0)\<lparr>marked' := True\<rparr>,
                                1 \<mapsto> RegExpShared (ascii ''b'') 0)),
       nextFree = 2\<rparr>)"

definition templateDying :: Collector where
  "templateDying = quietCollector\<lparr>IsObjectAboutToBeFinalized := (\<lambda>obj. obj = 7)\<rparr>"

section \<open>Flag parsing: what is accepted, what is reported\<close>

lemmas flag_defs = IgnoreCaseFlag_def GlobalFlag_def MultilineFlag_def StickyFlag_def

lemma bit_2_int: "bit (2::int) n = (n = 1)"
  using bit_push_bit_iff[of 1 "1::int" n] by (auto simp: bit_1_iff)

lemma bit_4_int: "bit (4::int) n = (n = 2)"
  using bit_push_bit_iff[of 2 "1::int" n] by (auto simp: bit_1_iff)

lemma bit_8_int: "bit (8::int) n = (n = 3)"
  using bit_push_bit_iff[of 3 "1::int" n] by (auto simp: bit_1_iff)

lemma bit_flagsOfLetters:
  "bit (flagsOfLetters S) n =
     ((n = 0 \<and> 105 \<in> S) \<or> (n = 1 \<and> 103 \<in> S) \<or> (n = 2 \<and> 109 \<in> S) \<or> (n = 3 \<and> 121 \<in> S))"
  by (auto simp: flagsOfLetters_def flag_defs bit_or_iff bit_1_iff bit_2_int bit_4_int bit_8_int)

lemma and_flag_iff:
  "(flagsOfLetters S AND IgnoreCaseFlag \<noteq> 0) = (105 \<in> S)"
  "(flagsOfLetters S AND GlobalFlag \<noteq> 0) = (103 \<in> S)"
  "(flagsOfLetters S AND MultilineFlag \<noteq> 0) = (109 \<in> S)"
  "(flagsOfLetters S AND StickyFlag \<noteq> 0) = (121 \<in> S)"
  using bit_eq_iff[of "flagsOfLetters S AND IgnoreCaseFlag" 0]
        bit_eq_iff[of "flagsOfLetters S AND GlobalFlag" 0]
        bit_eq_iff[of "flagsOfLetters S AND MultilineFlag" 0]
        bit_eq_iff[of "flagsOfLetters S AND StickyFlag" 0]
  by (auto simp: bit_and_iff bit_flagsOfLetters flag_defs bit_1_iff bit_2_int bit_4_int bit_8_int)

lemma or_flag_eq:
  "flagsOfLetters S OR IgnoreCaseFlag = flagsOfLetters (insert 105 S)"
  "flagsOfLetters S OR GlobalFlag = flagsOfLetters (insert 103 S)"
  "flagsOfLetters S OR MultilineFlag = flagsOfLetters (insert 109 S)"
  "flagsOfLetters S OR StickyFlag = flagsOfLetters (insert 121 S)"
  by (rule bit_eqI; auto simp: bit_or_iff bit_flagsOfLetters flag_defs bit_1_iff bit_2_int bit_4_int bit_8_int)+

lemma flagsOfLetters_empty: "flagsOfLetters {} = 0"
  by (simp add: flagsOfLetters_def)

lemma HandleRegExpFlag_letters:
  "HandleRegExpFlag IgnoreCaseFlag (flagsOfLetters S) =
     (if 105 \<in> S then (False, flagsOfLetters S) else (True, flagsOfLetters (insert 105 S)))"
  "HandleRegExpFlag GlobalFlag (flagsOfLetters S) =
     (if 103 \<in> S then (False, flagsOfLetters S) else (True, flagsOfLetters (insert 103 S)))"
  "HandleRegExpFlag MultilineFlag (flagsOfLetters S) =
     (if 109 \<in> S then (False, flagsOfLetters S) else (True, flagsOfLetters (insert 109 S)))"
  "HandleRegExpFlag StickyFlag (flagsOfLetters S) =
     (if 121 \<in> S then (False, flagsOfLetters S) else (True, flagsOfLetters (insert 121 S)))"
  using and_flag_iff[of S] by (simp_all add: HandleRegExpFlag_def or_flag_eq)

text \<open>One turn of the loop, on a bitset that stands for the letters seen so far.\<close>

lemma loop_step:
  "ParseRegExpFlags_loop (c # cs) (flagsOfLetters S) l =
     (if unat c \<in> flagLetters \<and> unat c \<notin> S
      then ParseRegExpFlags_loop cs (flagsOfLetters (insert (unat c) S)) (Some (ucast c))
      else (False, flagsOfLetters S, Some (ucast c)))"
  by (simp add: HandleRegExpFlag_letters flagLetters_def)

lemma loop_ok_iff:
  "fst (ParseRegExpFlags_loop cs (flagsOfLetters S) l) =
     (set (map unat cs) \<subseteq> flagLetters \<and> distinct (map unat cs) \<and> set (map unat cs) \<inter> S = {})"
proof (induction cs arbitrary: S l)
  case Nil
  show ?case by simp
next
  case (Cons c cs)
  show ?case
    unfolding loop_step using Cons.IH[of "insert (unat c) S" "Some (ucast c)"]
    by auto
qed

lemma loop_flags:
  "ParseRegExpFlags_loop cs (flagsOfLetters S) l = (True, f, l') \<Longrightarrow>
     f = flagsOfLetters (S \<union> set (map unat cs))"
proof (induction cs arbitrary: S l)
  case Nil
  then show ?case by simp
next
  case (Cons c cs)
  from Cons.prems have ok: "unat c \<in> flagLetters \<and> unat c \<notin> S"
    unfolding loop_step by (auto split: if_splits)
  with Cons.prems
  have "ParseRegExpFlags_loop cs (flagsOfLetters (insert (unat c) S)) (Some (ucast c)) = (True, f, l')"
    unfolding loop_step by simp
  from Cons.IH[OF this] show ?case by simp
qed

lemma loop_fail:
  "ParseRegExpFlags_loop cs (flagsOfLetters S) l = (False, f, l') \<Longrightarrow>
     \<exists>pre c post. cs = pre @ c # post \<and> l' = Some (ucast c) \<and>
        set (map unat pre) \<subseteq> flagLetters \<and> distinct (map unat pre) \<and>
        set (map unat pre) \<inter> S = {} \<and>
        (unat c \<notin> flagLetters \<or> unat c \<in> S \<union> set (map unat pre))"
proof (induction cs arbitrary: S l)
  case Nil
  then show ?case by simp
next
  case (Cons c cs)
  show ?case
  proof (cases "unat c \<in> flagLetters \<and> unat c \<notin> S")
    case True
    with Cons.prems
    have "ParseRegExpFlags_loop cs (flagsOfLetters (insert (unat c) S)) (Some (ucast c)) = (False, f, l')"
      unfolding loop_step by simp
    from Cons.IH[OF this] obtain pre d post where
      h: "cs = pre @ d # post" "l' = Some (ucast d)" "set (map unat pre) \<subseteq> flagLetters"
         "distinct (map unat pre)" "set (map unat pre) \<inter> insert (unat c) S = {}"
         "unat d \<notin> flagLetters \<or> unat d \<in> insert (unat c) S \<union> set (map unat pre)"
      by blast
    show ?thesis
      apply (rule exI[of _ "c # pre"], rule exI[of _ d], rule exI[of _ post])
      using h True by auto
  next
    case False
    with Cons.prems have "l' = Some (ucast c)"
      unfolding loop_step by (auto split: if_splits)
    with False show ?thesis
      apply -
      apply (rule exI[of _ "[]"], rule exI[of _ c], rule exI[of _ cs])
      by auto
  qed
qed

lemma distinct_not_in_take:
  "distinct xs \<Longrightarrow> j < length xs \<Longrightarrow> xs ! j \<notin> set (take j xs)"
  by (auto simp: in_set_conv_nth nth_eq_iff_index_eq)

lemma chars_ok_iff:
  "fst (ParseRegExpFlags_chars cs) = (set (map unat cs) \<subseteq> flagLetters \<and> distinct (map unat cs))"
  using loop_ok_iff[of cs "{}" None] by (simp add: ParseRegExpFlags_chars_def flagsOfLetters_empty)

lemma chars_flags:
  "ParseRegExpFlags_chars cs = (True, f, l) \<Longrightarrow> f = flagsOfLetters (set (map unat cs))"
  using loop_flags[of cs "{}" None f l] by (simp add: ParseRegExpFlags_chars_def flagsOfLetters_empty)

lemma chars_fail:
  assumes "ParseRegExpFlags_chars cs = (False, f, l)"
  shows "\<exists>i<length cs. offendingAt (map unat cs) i \<and> (\<forall>j<i. \<not> offendingAt (map unat cs) j) \<and>
           l = Some (ucast (cs ! i))"
proof -
  from assms have "ParseRegExpFlags_loop cs (flagsOfLetters {}) None = (False, f, l)"
    by (simp add: ParseRegExpFlags_chars_def flagsOfLetters_empty)
  from loop_fail[OF this] obtain pre c post where
    h: "cs = pre @ c # post" "l = Some (ucast c)" "set (map unat pre) \<subseteq> flagLetters"
       "distinct (map unat pre)" "unat c \<notin> flagLetters \<or> unat c \<in> set (map unat pre)"
    by auto
  have at: "offendingAt (map unat cs) (length pre)"
    using h by (auto simp: offendingAt_def nth_append)
  have before: "\<not> offendingAt (map unat cs) j" if "j < length pre" for j
  proof -
    have "map unat cs ! j = map unat pre ! j" "take j (map unat cs) = take j (map unat pre)"
      using that h(1) by (simp_all add: nth_append)
    moreover have "map unat pre ! j \<in> flagLetters"
      using h(3) that by (metis length_map nth_mem subsetD)
    moreover have "map unat pre ! j \<notin> set (take j (map unat pre))"
      using distinct_not_in_take[OF h(4)] that by simp
    ultimately show ?thesis by (simp add: offendingAt_def)
  qed
  show ?thesis
    apply (rule exI[of _ "length pre"])
    using at before h(1,2) by simp
qed

lemma PRF_cases:
  "ParseRegExpFlags (Some s) =
     (case s of Latin1Str cs \<Rightarrow>
        (case ParseRegExpFlags_chars cs of (ok, f, l) \<Rightarrow>
           if \<not> ok then Inl \<lparr>errorNumber = JSMSG_BAD_REGEXP_FLAG,
                              messageArg = (case l of Some c \<Rightarrow> [ucast c, 0] | None \<Rightarrow> [0])\<rparr> else Inr f)
      | TwoByteStr cs \<Rightarrow>
        (case ParseRegExpFlags_chars cs of (ok, f, l) \<Rightarrow>
           if \<not> ok then Inl \<lparr>errorNumber = JSMSG_BAD_REGEXP_FLAG,
                              messageArg = (case l of Some c \<Rightarrow> [ucast c, 0] | None \<Rightarrow> [0])\<rparr> else Inr f))"
  by (simp add: ParseRegExpFlags_def split: JSLinearString.splits)

lemma PRF_chars:
  fixes cs :: "'c::len word list"
  assumes up: "is_up (ucast :: 'c word \<Rightarrow> char16_t)"
  defines "r \<equiv> (case ParseRegExpFlags_chars cs of (ok, f, l) \<Rightarrow>
           if \<not> ok then Inl \<lparr>errorNumber = JSMSG_BAD_REGEXP_FLAG,
                              messageArg = (case l of Some c \<Rightarrow> [ucast c, 0] | None \<Rightarrow> [0])\<rparr> else Inr f)"
  shows "((\<exists>e. r = Inl e) = ((\<exists>c\<in>set (map unat cs). c \<notin> flagLetters) \<or> \<not> distinct (map unat cs)))"
    and "r = Inl e \<Longrightarrow> errorNumber e = JSMSG_BAD_REGEXP_FLAG \<and>
           (\<exists>i<length cs. offendingAt (map unat cs) i \<and> (\<forall>j<i. \<not> offendingAt (map unat cs) j) \<and>
              messageArg e = [of_nat (map unat cs ! i), 0])"
    and "r = Inr f \<Longrightarrow> f = flagsOfLetters (set (map unat cs))"
proof -
  obtain ok f0 l where p: "ParseRegExpFlags_chars cs = (ok, f0, l)"
    by (cases "ParseRegExpFlags_chars cs") auto
  have okiff: "ok = (set (map unat cs) \<subseteq> flagLetters \<and> distinct (map unat cs))"
    using chars_ok_iff[of cs] p by simp
  show "((\<exists>e. r = Inl e) = ((\<exists>c\<in>set (map unat cs). c \<notin> flagLetters) \<or> \<not> distinct (map unat cs)))"
    unfolding r_def p using okiff by auto
  show "f = flagsOfLetters (set (map unat cs))" if "r = Inr f"
    using that chars_flags[of cs f0 l] p unfolding r_def by (auto split: if_splits)
  show "errorNumber e = JSMSG_BAD_REGEXP_FLAG \<and>
           (\<exists>i<length cs. offendingAt (map unat cs) i \<and> (\<forall>j<i. \<not> offendingAt (map unat cs) j) \<and>
              messageArg e = [of_nat (map unat cs ! i), 0])" if "r = Inl e"
  proof -
    from that have nok: "\<not> ok" and e: "e = \<lparr>errorNumber = JSMSG_BAD_REGEXP_FLAG,
                              messageArg = (case l of Some c \<Rightarrow> [ucast c, 0] | None \<Rightarrow> [0])\<rparr>"
      unfolding r_def p by (auto split: if_splits)
    from chars_fail[of cs f0 l] p nok obtain i where
      i: "i < length cs" "offendingAt (map unat cs) i" "\<forall>j<i. \<not> offendingAt (map unat cs) j"
         "l = Some (ucast (cs ! i))" by auto
    have "(ucast (ucast (cs ! i) :: char16_t) :: Latin1Char) = of_nat (unat (cs ! i))"
      using up by (simp add: ucast_up_ucast)
    with i e show ?thesis by auto
  qed
qed

text \<open>
  Claim C5, as the code has it. Parsing a flag string fails exactly when the string holds
  a character that is none of i, g, m, y, or holds a flag letter twice. Both failures
  are reported in the same way: the one error number \<open>JSMSG_BAD_REGEXP_FLAG\<close>, with
  the low byte of the first offending character (the character itself when it is
  Latin-1) as the message argument; there is no separate kind for a duplicate. A
  successful parse yields exactly the bits of the letters present, and the empty string
  yields the empty bitset.
\<close>
theorem ParseRegExpFlags_outcome:
  "((\<exists>e. ParseRegExpFlags (Some s) = Inl e) =
      ((\<exists>c\<in>set (charCodes s). c \<notin> flagLetters) \<or> \<not> distinct (charCodes s))) \<and>
   (\<forall>e. ParseRegExpFlags (Some s) = Inl e \<longrightarrow>
      errorNumber e = JSMSG_BAD_REGEXP_FLAG \<and>
      (\<exists>i<length (charCodes s).
          offendingAt (charCodes s) i \<and> (\<forall>j<i. \<not> offendingAt (charCodes s) j) \<and>
          messageArg e = [of_nat (charCodes s ! i), 0])) \<and>
   (\<forall>f. ParseRegExpFlags (Some s) = Inr f \<longrightarrow> f = flagsOfLetters (set (charCodes s))) \<and>
   ParseRegExpFlags (Some (Latin1Str [])) = Inr 0 \<and>
   ParseRegExpFlags (Some (TwoByteStr [])) = Inr 0"
proof (cases s)
  case (Latin1Str cs)
  have up: "is_up (ucast :: Latin1Char \<Rightarrow> char16_t)" by (simp add: is_up)
  show ?thesis
    unfolding PRF_cases Latin1Str
    using PRF_chars[OF up, of cs]
    by (simp add: ParseRegExpFlags_chars_def)
next
  case (TwoByteStr cs)
  have up: "is_up (ucast :: char16_t \<Rightarrow> char16_t)" by (simp add: is_up)
  show ?thesis
    unfolding PRF_cases TwoByteStr
    using PRF_chars[OF up, of cs]
    by (simp add: ParseRegExpFlags_chars_def)
qed

theorem ParseRegExpFlags_outcome_witness:
  "ParseRegExpFlags (Some (ascii ''gim'')) = Inr 7 \<and>
   flagsOfLetters (set (charCodes (ascii ''gim''))) = 7 \<and>
   ParseRegExpFlags (Some (ascii ''gg'')) =
     Inl \<lparr>errorNumber = JSMSG_BAD_REGEXP_FLAG, messageArg = [103, 0]\<rparr> \<and>
   \<not> distinct (charCodes (ascii ''gg'')) \<and>
   offendingAt (charCodes (ascii ''gg'')) 1 \<and> \<not> offendingAt (charCodes (ascii ''gg'')) 0"
proof -
  have a: "ParseRegExpFlags (Some (ascii ''gim'')) = Inr 7"
    by (simp add: ParseRegExpFlags_def ParseRegExpFlags_chars_def ascii_def HandleRegExpFlag_def flag_defs)
  have b: "ParseRegExpFlags (Some (ascii ''gg'')) =
     Inl \<lparr>errorNumber = JSMSG_BAD_REGEXP_FLAG, messageArg = [103, 0]\<rparr>"
    by (simp add: ParseRegExpFlags_def ParseRegExpFlags_chars_def ascii_def HandleRegExpFlag_def flag_defs)
  from ParseRegExpFlags_outcome[of "ascii ''gim''"] a
  have c: "flagsOfLetters (set (charCodes (ascii ''gim''))) = 7" by simp
  from ParseRegExpFlags_outcome[of "ascii ''gg''"] b
  have d: "\<not> distinct (charCodes (ascii ''gg''))" 
    by (simp add: ascii_def)
  have e: "offendingAt (charCodes (ascii ''gg'')) 1 \<and> \<not> offendingAt (charCodes (ascii ''gg'')) 0"
    by (simp add: offendingAt_def ascii_def flagLetters_def)
  from a b c d e show ?thesis by blast
qed

text \<open>
  The claim as stated asks for two distinct failure kinds. A repeated \<open>g\<close> and an
  unknown \<open>x\<close> give the same error number, and an unknown two-byte character whose low
  byte is that of \<open>g\<close> gives the very report of a repeated \<open>g\<close>.
\<close>

theorem ParseRegExpFlags_kinds_counterexample:
  "ParseRegExpFlags (Some (ascii ''gg'')) =
     Inl \<lparr>errorNumber = JSMSG_BAD_REGEXP_FLAG, messageArg = [103, 0]\<rparr> \<and>
   ParseRegExpFlags (Some (ascii ''x'')) =
     Inl \<lparr>errorNumber = JSMSG_BAD_REGEXP_FLAG, messageArg = [120, 0]\<rparr> \<and>
   ParseRegExpFlags (Some (TwoByteStr [0x167])) = ParseRegExpFlags (Some (ascii ''gg''))"
  by (simp add: ParseRegExpFlags_def ParseRegExpFlags_chars_def ascii_def HandleRegExpFlag_def flag_defs)

section \<open>The textual form\<close>

lemma length_twoByteContent: "length (twoByteContent s) = length_str s"
  by (cases s) simp_all

lemma toString_eq:
  "toString memLimit obj =
     (if length (textualForm obj) \<le> memLimit then Some (textualForm obj) else None)"
  unfolding toString_def Let_def textualForm_def flagLettersText_def
  by (cases "GLOBAL_FLAG_SLOT obj"; cases "IGNORE_CASE_FLAG_SLOT obj"; cases "MULTILINE_FLAG_SLOT obj"; cases "STICKY_FLAG_SLOT obj";
      cases "length_str (SOURCE_SLOT obj) = 0";
      simp add: append_sb_def reserve_def infallibleAppend_def finishString_def cstr_def
                length_twoByteContent)

lemma PRF_flags:
  "ParseRegExpFlags (Some s) = Inr f \<Longrightarrow> f = flagsOfLetters (set (charCodes s))"
proof (cases s)
  case (Latin1Str cs)
  have up: "is_up (ucast :: Latin1Char \<Rightarrow> char16_t)" by (simp add: is_up)
  assume "ParseRegExpFlags (Some s) = Inr f"
  then show ?thesis
    unfolding PRF_cases Latin1Str using PRF_chars(3)[OF up, of cs f] by simp
next
  case (TwoByteStr cs)
  have up: "is_up (ucast :: char16_t \<Rightarrow> char16_t)" by (simp add: is_up)
  assume "ParseRegExpFlags (Some s) = Inr f"
  then show ?thesis
    unfolding PRF_cases TwoByteStr using PRF_chars(3)[OF up, of cs f] by simp
qed

lemma flagLettersText_init:
  "flagLettersText (snd (init True obj src (flagsOfLetters S))) =
     filter (\<lambda>c. unat c \<in> S) (cstr ''gimy'')"
  by (simp add: flagLettersText_def init_def and_flag_iff cstr_def)

text \<open>
  Claim C6. The textual form produced by \<open>toString\<close> is the source between slashes, with
  \<open>(?:)\<close> for an empty source, followed by exactly the letters of the set flags in the
  order g, i, m, y (the null result is for a buffer that cannot grow that far). Hence an
  object initialised with the flags parsed from a flag string shows the letters of that
  string in canonical order; parsing \<open>gim\<close> and rendering gives \<open>gim\<close> back; and an empty
  source without flags renders as \<open>/(?:)/\<close>.
\<close>

theorem toString_textualForm:
  "toString memLimit obj =
     (if length (textualForm obj) \<le> memLimit then Some (textualForm obj) else None) \<and>
   textualForm obj =
     cstr ''/'' @ (if length_str (SOURCE_SLOT obj) = 0 then cstr ''(?:)'' else twoByteContent (SOURCE_SLOT obj))
       @ cstr ''/'' @
     (if GLOBAL_FLAG_SLOT obj then cstr ''g'' else []) @ (if IGNORE_CASE_FLAG_SLOT obj then cstr ''i'' else []) @
     (if MULTILINE_FLAG_SLOT obj then cstr ''m'' else []) @ (if STICKY_FLAG_SLOT obj then cstr ''y'' else []) \<and>
   (\<forall>f. ParseRegExpFlags (Some s) = Inr f \<longrightarrow>
      flagLettersText (snd (init True obj src f)) =
        filter (\<lambda>c. unat c \<in> set (charCodes s)) (cstr ''gimy'')) \<and>
   (\<forall>f. ParseRegExpFlags (Some (ascii ''gim'')) = Inr f \<longrightarrow>
      flagLettersText (snd (init True obj src f)) = cstr ''gim'') \<and>
   (6 \<le> memLimit \<longrightarrow>
      toString memLimit (snd (init True obj (Latin1Str []) 0)) = Some (cstr ''/(?:)/''))"
proof -
  have a: "\<forall>f. ParseRegExpFlags (Some s) = Inr f \<longrightarrow>
      flagLettersText (snd (init True obj src f)) =
        filter (\<lambda>c. unat c \<in> set (charCodes s)) (cstr ''gimy'')" for s
    using PRF_flags[of s] by (auto simp: flagLettersText_init)
  have b: "\<forall>f. ParseRegExpFlags (Some (ascii ''gim'')) = Inr f \<longrightarrow>
      flagLettersText (snd (init True obj src f)) = cstr ''gim''"
    using a[of "ascii ''gim''"] by (simp add: ascii_def cstr_def)
  have c: "6 \<le> memLimit \<longrightarrow>
      toString memLimit (snd (init True obj (Latin1Str []) 0)) = Some (cstr ''/(?:)/'')"
    by (simp add: toString_eq textualForm_def flagLettersText_def init_def cstr_def)
  show ?thesis
    using a[of s] b c by (simp add: toString_eq) (simp add: textualForm_def flagLettersText_def)
qed

theorem toString_textualForm_witness:
  "ParseRegExpFlags (Some (ascii ''gim'')) = Inr 7 \<and>
   flagLettersText (snd (init True blankObject (ascii ''ab'') 7)) = cstr ''gim'' \<and>
   toString 9 (snd (init True blankObject (ascii ''ab'') 7)) = Some (cstr ''/ab/gim'') \<and>
   toString 6 (snd (init True blankObject (Latin1Str []) 0)) = Some (cstr ''/(?:)/'')"
proof -
  have a: "ParseRegExpFlags (Some (ascii ''gim'')) = Inr 7"
    by (simp add: ParseRegExpFlags_def ParseRegExpFlags_chars_def ascii_def HandleRegExpFlag_def flag_defs)
  from toString_textualForm[of 9 blankObject "ascii ''gim''" "ascii ''ab''"] a
  have b: "flagLettersText (snd (init True blankObject (ascii ''ab'') 7)) = cstr ''gim''"
    by blast
  from toString_textualForm[of 9 "snd (init True blankObject (ascii ''ab'') 7)" "ascii ''gim''" "ascii ''ab''"]
  have c: "toString 9 (snd (init True blankObject (ascii ''ab'') 7)) = Some (cstr ''/ab/gim'')"
    by (simp add: init_def blankObject_def ascii_def cstr_def flag_defs)
  from toString_textualForm[of 6 blankObject "ascii ''gim''" "ascii ''ab''"]
  have d: "toString 6 (snd (init True blankObject (Latin1Str []) 0)) = Some (cstr ''/(?:)/'')"
    by simp
  from a b c d show ?thesis by blast
qed

section \<open>Reusing a scoped MatchPairs buffer\<close>

lemma initArray_loop_eq:
  "initArray_loop i n p mem a =
     (if \<exists>k. i \<le> k \<and> k < n \<and> a = p + sizeof_MatchPair * k
      then \<lparr>start = -1, limit = -1\<rparr> else mem a)"
proof (induction i n p mem rule: initArray_loop.induct)
  case (1 i pairCount p mem)
  define X where "X k = p + sizeof_MatchPair * k" for k
  define neg where "neg = \<lparr>start = -1 :: int32, limit = -1 :: int32\<rparr>"
  show ?case
  proof (cases "i < pairCount")
    case True
    have le: "(i \<le> k) = (k = i \<or> i + 1 \<le> k)" for k by auto
    have split: "(\<exists>k. i \<le> k \<and> k < pairCount \<and> a = X k) =
                 (a = X i \<or> (\<exists>k. i + 1 \<le> k \<and> k < pairCount \<and> a = X k))"
      unfolding le using True by blast
    have "initArray_loop i pairCount p mem a = initArray_loop (i + 1) pairCount p (mem(X i := neg)) a"
      using True by (subst initArray_loop.simps) (simp add: X_def neg_def)
    also have "\<dots> = (if \<exists>k. i + 1 \<le> k \<and> k < pairCount \<and> a = X k then neg else (mem(X i := neg)) a)"
      using "1.IH"[OF True] by (simp only: X_def neg_def)
    also have "\<dots> = (if \<exists>k. i \<le> k \<and> k < pairCount \<and> a = X k then neg else mem a)"
      unfolding split by (simp only: fun_upd_apply split: if_splits) blast
    finally show ?thesis by (simp only: X_def neg_def)
  next
    case False
    then show ?thesis
      by (subst initArray_loop.simps) auto
  qed
qed

lemma initArray_loop_pairs:
  "map (\<lambda>i. initArray_loop 0 n p mem (p + sizeof_MatchPair * i)) [0..<n] =
     replicate n \<lparr>start = -1, limit = -1\<rparr>"
  by (rule nth_equalityI) (auto simp: initArray_loop_eq)

lemma initArray_True:
  assumes "initArray n m = Returns (True, m1)"
  shows "\<exists>m' p. allocOrExpandArray n m = Returns (True, m') \<and> pairs' m' = Some p \<and> 0 < n \<and>
            m1 = m'\<lparr>memory := initArray_loop 0 n p (memory m')\<rparr>"
  using assms unfolding initArray_def
  by (auto split: if_splits outcome.splits prod.splits bool.splits option.splits)

lemma Scoped_alloc_True:
  assumes "ScopedMatchPairs_allocOrExpandArray n m = Returns (True, m')" "0 < n"
  shows "pairCount' m' = n \<and> pairs' m' \<noteq> None \<and> discipline m' = discipline m"
  using assms unfolding ScopedMatchPairs_allocOrExpandArray_def alloc_def
  by (auto split: if_splits prod.splits option.splits)

lemma Scoped_alloc_again:
  assumes "pairCount' m = n" "pairs' m \<noteq> None" "0 < n"
  shows "ScopedMatchPairs_allocOrExpandArray k m = (if k = n then Returns (True, m) else AssertionFailure)"
  using assms unfolding ScopedMatchPairs_allocOrExpandArray_def by auto

lemma Scoped_alloc_fresh:
  "allocOrExpandArray n (ScopedMatchPairs a mem) =
     (if (sizeof_MatchPair * n) mod 2 ^ 64 \<le> avail a
      then Returns (True,
             (ScopedMatchPairs a mem)
               \<lparr>pairs' := Some (latest a),
                lifoScope' := a\<lparr>latest := latest a + (sizeof_MatchPair * n) mod 2 ^ 64,
                                avail := avail a - (sizeof_MatchPair * n) mod 2 ^ 64\<rparr>,
                pairCount' := n\<rparr>)
      else Returns (False, ScopedMatchPairs a mem))"
  by (simp add: allocOrExpandArray_def ScopedMatchPairs_allocOrExpandArray_def
        ScopedMatchPairs_def alloc_def)

lemma initArray_fresh:
  assumes "0 < n"
  shows "initArray n (ScopedMatchPairs a mem) =
     (if (sizeof_MatchPair * n) mod 2 ^ 64 \<le> avail a
      then Returns (True,
             (ScopedMatchPairs a mem)
               \<lparr>pairs' := Some (latest a),
                lifoScope' := a\<lparr>latest := latest a + (sizeof_MatchPair * n) mod 2 ^ 64,
                                avail := avail a - (sizeof_MatchPair * n) mod 2 ^ 64\<rparr>,
                pairCount' := n,
                memory := initArray_loop 0 n (latest a) mem\<rparr>)
      else Returns (False, ScopedMatchPairs a mem))"
  using assms by (simp add: initArray_def Scoped_alloc_fresh) (simp add: ScopedMatchPairs_def)

lemma pairsOf_initArray:
  assumes "pairs' m' = Some p" "pairCount' m' = n"
  shows "pairsOf (m'\<lparr>memory := initArray_loop 0 n p (memory m')\<rparr>) =
           replicate n \<lparr>start = -1, limit = -1\<rparr>"
  using assms by (simp add: pairsOf_def initArray_loop_pairs)

lemma initArray_again:
  assumes "discipline m1 = Scoped" "pairCount' m1 = n" "pairs' m1 = Some p" "0 < n"
  shows "initArray n m1 = Returns (True, m1\<lparr>memory := initArray_loop 0 n p (memory m1)\<rparr>)"
  using assms Scoped_alloc_again[of m1 n n]
  by (simp add: initArray_def allocOrExpandArray_def)

text \<open>
  Claim C8, as the code has it. For a pair count \<open>n > 0\<close> the arena is asked for
  \<open>sizeof(MatchPair) * n\<close> bytes, the product being taken in \<open>size_t\<close>, and a scoped buffer
  that holds no storage gets its storage exactly when the arena has that many bytes left.
  So when the byte count of \<open>n\<close> pairs fits \<open>size_t\<close>, the first \<open>initArray n\<close> on such a
  buffer succeeds when the arena has room for \<open>n\<close> pairs, and otherwise returns false and
  leaves the buffer as it was. For such an \<open>n\<close>, whenever a call \<open>initArray n\<close> on a scoped
  buffer has succeeded, all \<open>n\<close> pairs are \<open>(-1, -1)\<close>, and a second \<open>initArray n\<close> succeeds
  too, keeps the same storage without taking anything more from the arena, and again
  leaves all \<open>n\<close> pairs at \<open>(-1, -1)\<close>. Asking \<open>allocOrExpandArray\<close> for any other pair
  count then trips an assertion. (When the byte count wraps around, the block the arena
  gives is shorter than \<open>n\<close> pairs, and the loop of \<open>initArray\<close> writes past its end.)
\<close>

theorem ScopedMatchPairs_initArray_reuse:
  "(0 < n \<longrightarrow>
      allocOrExpandArray n (ScopedMatchPairs a mem) =
        (if (sizeof_MatchPair * n) mod 2 ^ 64 \<le> avail a
         then Returns (True,
                (ScopedMatchPairs a mem)
                  \<lparr>pairs' := Some (latest a),
                   lifoScope' := a\<lparr>latest := latest a + (sizeof_MatchPair * n) mod 2 ^ 64,
                                   avail := avail a - (sizeof_MatchPair * n) mod 2 ^ 64\<rparr>,
                   pairCount' := n\<rparr>)
         else Returns (False, ScopedMatchPairs a mem))) \<and>
   (0 < n \<and> sizeof_MatchPair * n < 2 ^ 64 \<longrightarrow>
      initArray n (ScopedMatchPairs a mem) =
        (if sizeof_MatchPair * n \<le> avail a
         then Returns (True,
                (ScopedMatchPairs a mem)
                  \<lparr>pairs' := Some (latest a),
                   lifoScope' := a\<lparr>latest := latest a + sizeof_MatchPair * n,
                                   avail := avail a - sizeof_MatchPair * n\<rparr>,
                   pairCount' := n,
                   memory := initArray_loop 0 n (latest a) mem\<rparr>)
         else Returns (False, ScopedMatchPairs a mem))) \<and>
   (discipline m = Scoped \<and> sizeof_MatchPair * n < 2 ^ 64 \<and>
    initArray n m = Returns (True, m1) \<longrightarrow>
      0 < n \<and> pairCount' m1 = n \<and> pairs' m1 \<noteq> None \<and>
      pairsOf m1 = replicate n \<lparr>start = -1, limit = -1\<rparr> \<and>
      (\<exists>m2. initArray n m1 = Returns (True, m2) \<and>
            pairs' m2 = pairs' m1 \<and> pairCount' m2 = n \<and> lifoScope' m2 = lifoScope' m1 \<and>
            pairsOf m2 = replicate n \<lparr>start = -1, limit = -1\<rparr>) \<and>
      (\<forall>k. k \<noteq> n \<longrightarrow> allocOrExpandArray k m1 = AssertionFailure))"
proof (intro conjI impI)
  show "allocOrExpandArray n (ScopedMatchPairs a mem) =
        (if (sizeof_MatchPair * n) mod 2 ^ 64 \<le> avail a
         then Returns (True,
                (ScopedMatchPairs a mem)
                  \<lparr>pairs' := Some (latest a),
                   lifoScope' := a\<lparr>latest := latest a + (sizeof_MatchPair * n) mod 2 ^ 64,
                                   avail := avail a - (sizeof_MatchPair * n) mod 2 ^ 64\<rparr>,
                   pairCount' := n\<rparr>)
         else Returns (False, ScopedMatchPairs a mem))"
    by (rule Scoped_alloc_fresh)
next
  assume h: "0 < n \<and> sizeof_MatchPair * n < 2 ^ 64"
  then have "(sizeof_MatchPair * n) mod 2 ^ 64 = sizeof_MatchPair * n" by simp
  with initArray_fresh[of n a mem] h
  show "initArray n (ScopedMatchPairs a mem) =
        (if sizeof_MatchPair * n \<le> avail a
         then Returns (True,
                (ScopedMatchPairs a mem)
                  \<lparr>pairs' := Some (latest a),
                   lifoScope' := a\<lparr>latest := latest a + sizeof_MatchPair * n,
                                   avail := avail a - sizeof_MatchPair * n\<rparr>,
                   pairCount' := n,
                   memory := initArray_loop 0 n (latest a) mem\<rparr>)
         else Returns (False, ScopedMatchPairs a mem))"
    by simp
next
  assume h: "discipline m = Scoped \<and> sizeof_MatchPair * n < 2 ^ 64 \<and>
    initArray n m = Returns (True, m1)"
  from initArray_True[of n m m1] h obtain m' p where
    a: "allocOrExpandArray n m = Returns (True, m')" "pairs' m' = Some p" "0 < n"
       "m1 = m'\<lparr>memory := initArray_loop 0 n p (memory m')\<rparr>" by blast
  from a(1) h have "ScopedMatchPairs_allocOrExpandArray n m = Returns (True, m')"
    by (simp add: allocOrExpandArray_def)
  from Scoped_alloc_True[OF this a(3)] h
  have b: "pairCount' m' = n" "discipline m' = Scoped" by simp_all
  have c: "pairCount' m1 = n" "pairs' m1 = Some p" "discipline m1 = Scoped"
    using a b by simp_all
  show "0 < n" by (rule a(3))
  show "pairCount' m1 = n" by (rule c(1))
  show "pairs' m1 \<noteq> None" using c(2) by simp
  show "pairsOf m1 = replicate n \<lparr>start = -1, limit = -1\<rparr>"
    unfolding a(4) using pairsOf_initArray[OF a(2) b(1)] .
  show "\<exists>m2. initArray n m1 = Returns (True, m2) \<and>
            pairs' m2 = pairs' m1 \<and> pairCount' m2 = n \<and> lifoScope' m2 = lifoScope' m1 \<and>
            pairsOf m2 = replicate n \<lparr>start = -1, limit = -1\<rparr>"
    using initArray_again[OF c(3) c(1) c(2) a(3)] pairsOf_initArray[OF c(2) c(1)] c
    by simp
  show "\<forall>k. k \<noteq> n \<longrightarrow> allocOrExpandArray k m1 = AssertionFailure"
    using Scoped_alloc_again[of m1 n] c a(3) by (simp add: allocOrExpandArray_def)
qed

theorem ScopedMatchPairs_initArray_reuse_witness:
  "\<exists>m1 m2.
     initArray 2 smallBuffer = Returns (True, m1) \<and>
     initArray 2 m1 = Returns (True, m2) \<and>
     pairs' m1 = Some 1024 \<and> pairs' m2 = Some 1024 \<and>
     lifoScope' m1 = \<lparr>latest = 1040, avail = 0\<rparr> \<and> lifoScope' m2 = lifoScope' m1 \<and>
     pairsOf m1 = replicate 2 \<lparr>start = -1, limit = -1\<rparr> \<and>
     pairsOf m2 = replicate 2 \<lparr>start = -1, limit = -1\<rparr> \<and>
     allocOrExpandArray 3 m1 = AssertionFailure \<and>
     initArray 3 smallBuffer = Returns (False, smallBuffer) \<and>
     allocOrExpandArray (2 ^ 61 + 1) smallBuffer =
       Returns (True, smallBuffer\<lparr>pairs' := Some 1024,
                                   lifoScope' := \<lparr>latest = 1032, avail = 8\<rparr>,
                                   pairCount' := 2 ^ 61 + 1\<rparr>) \<and>
     (\<exists>m3. initArray (2 ^ 61 + 1) smallBuffer = Returns (True, m3) \<and>
           pairs' m3 = Some 1024 \<and> lifoScope' m3 = \<lparr>latest = 1032, avail = 8\<rparr> \<and>
           memory smallBuffer 1032 = \<lparr>start = 7, limit = 9\<rparr> \<and>
           memory m3 1032 = \<lparr>start = -1, limit = -1\<rparr>)"
proof -
  define a where "a = \<lparr>latest = 1024, avail = 16 :: nat\<rparr>"
  define mem where "mem = (\<lambda>_ :: nat. \<lparr>start = 7 :: int32, limit = 9 :: int32\<rparr>)"
  have sb: "smallBuffer = ScopedMatchPairs a mem" by (simp add: smallBuffer_def a_def mem_def)
  note t = ScopedMatchPairs_initArray_reuse[of _ a mem]
  have s2: "0 < (2::nat) \<and> sizeof_MatchPair * 2 < 2 ^ 64" "sizeof_MatchPair * 2 \<le> avail a"
    and s3: "0 < (3::nat) \<and> sizeof_MatchPair * 3 < 2 ^ 64" "\<not> sizeof_MatchPair * 3 \<le> avail a"
    by (simp_all add: sizeof_MatchPair_def a_def)
  define m1 where "m1 = (ScopedMatchPairs a mem)
                  \<lparr>pairs' := Some (latest a),
                   lifoScope' := a\<lparr>latest := latest a + sizeof_MatchPair * 2,
                                   avail := avail a - sizeof_MatchPair * 2\<rparr>,
                   pairCount' := 2,
                   memory := initArray_loop 0 2 (latest a) mem\<rparr>"
  from t[of 2] s2 have i2: "initArray 2 (ScopedMatchPairs a mem) = Returns (True, m1)"
    unfolding m1_def by simp
  from t[of 3] s3 have i3: "initArray 3 (ScopedMatchPairs a mem) = Returns (False, ScopedMatchPairs a mem)"
    by simp
  have d: "discipline (ScopedMatchPairs a mem) = Scoped" by (simp add: ScopedMatchPairs_def)
  from t[of 2 "ScopedMatchPairs a mem" m1] d s2(1) i2 obtain m2 where
    r: "initArray 2 m1 = Returns (True, m2)" "pairs' m2 = pairs' m1" "lifoScope' m2 = lifoScope' m1"
       "pairsOf m1 = replicate 2 \<lparr>start = -1, limit = -1\<rparr>"
       "pairsOf m2 = replicate 2 \<lparr>start = -1, limit = -1\<rparr>"
       "allocOrExpandArray 3 m1 = AssertionFailure"
    by auto
  have p: "pairs' m1 = Some 1024" "lifoScope' m1 = \<lparr>latest = 1040, avail = 0\<rparr>"
    by (simp_all add: m1_def a_def sizeof_MatchPair_def)
  have w: "(sizeof_MatchPair * (2 ^ 61 + 1)) mod 2 ^ 64 = 8"
    by (simp add: sizeof_MatchPair_def)
  have "0 < (2 ^ 61 + 1 :: nat)" by simp
  with t[of "2 ^ 61 + 1"] have big: "allocOrExpandArray (2 ^ 61 + 1) (ScopedMatchPairs a mem) =
       Returns (True, (ScopedMatchPairs a mem)\<lparr>pairs' := Some 1024,
                                   lifoScope' := \<lparr>latest = 1032, avail = 8\<rparr>,
                                   pairCount' := 2 ^ 61 + 1\<rparr>)"
    unfolding w by (simp add: a_def)
  have over: "initArray_loop 0 (2 ^ 61 + 1) 1024 mem 1032 = \<lparr>start = -1, limit = -1\<rparr>"
  proof -
    have "\<exists>k. 0 \<le> k \<and> k < 2 ^ 61 + 1 \<and> (1032::nat) = 1024 + sizeof_MatchPair * k"
      by (rule exI[of _ 1]) (simp add: sizeof_MatchPair_def)
    then show ?thesis by (simp only: initArray_loop_eq if_True)
  qed
  have "\<exists>m3. initArray (2 ^ 61 + 1) (ScopedMatchPairs a mem) = Returns (True, m3) \<and>
           pairs' m3 = Some 1024 \<and> lifoScope' m3 = \<lparr>latest = 1032, avail = 8\<rparr> \<and>
           memory (ScopedMatchPairs a mem) 1032 = \<lparr>start = 7, limit = 9\<rparr> \<and>
           memory m3 1032 = \<lparr>start = -1, limit = -1\<rparr>"
    unfolding initArray_fresh[of "2 ^ 61 + 1" a mem, OF \<open>0 < (2 ^ 61 + 1 :: nat)\<close>] w
    using over by (simp add: a_def) (simp add: ScopedMatchPairs_def mem_def)
  with i2 i3 r p big show ?thesis unfolding sb by auto
qed

text \<open>
  The claim as stated has both calls succeed for every scoped buffer. A buffer over an arena
  with 16 bytes left cannot hold three pairs: \<open>initArray 3\<close> returns false and leaves the
  buffer without storage, so that the second call fails as the first did.
\<close>

theorem ScopedMatchPairs_initArray_exhausted_counterexample:
  "initArray 3 smallBuffer = Returns (False, smallBuffer)"
  by (simp add: initArray_def allocOrExpandArray_def ScopedMatchPairs_allocOrExpandArray_def
        smallBuffer_def ScopedMatchPairs_def alloc_def sizeof_MatchPair_def)

section \<open>Displacement and the bounds of offsets\<close>

lemma sint_add_ucast:
  fixes a :: "32 word" and d :: "64 word"
  assumes "0 \<le> sint a" "sint a + int (unat d) < 2 ^ 31"
  shows "sint (a + ucast d) = sint a + int (unat d)"
proof -
  have a: "a = word_of_int (sint a)" by simp
  have d: "(ucast d :: 32 word) = word_of_int (uint d)" by (rule ucast_eq)
  have "a + ucast d = (word_of_int (sint a + uint d) :: 32 word)"
    by (subst a, subst d) (simp only: wi_hom_add)
  then have "sint (a + ucast d) = signed_take_bit 31 (sint a + uint d)"
    by (simp only: sint_sbintrunc') simp
  also have "\<dots> = sint a + uint d"
  proof (rule signed_take_bit_int_eq_self)
    have "0 \<le> uint d" by simp
    with assms(1) have "0 \<le> sint a + uint d" by linarith
    moreover have "- (2 ^ 31) \<le> (0::int)" by simp
    ultimately show "- (2 ^ 31) \<le> sint a + uint d" by (rule order_trans[rotated])
    from assms(2) show "sint a + uint d < 2 ^ 31" by simp
  qed
  finally show ?thesis by simp
qed

lemma sint_of_nat_small:
  "n < 2 ^ 31 \<Longrightarrow> sint (of_nat n :: 32 word) = int n"
proof -
  assume n: "n < 2 ^ 31"
  have "sint (of_nat n :: 32 word) = sint (word_of_int (int n) :: 32 word)" by simp
  also have "\<dots> = signed_take_bit 31 (int n)" by (simp only: sint_sbintrunc') simp
  also have "\<dots> = int n" using n by (intro signed_take_bit_int_eq_self) auto
  finally show ?thesis .
qed

lemma sizeof_inj: "(p + sizeof_MatchPair * i = p + sizeof_MatchPair * k) = (i = k)"
  by (simp add: sizeof_MatchPair_def)

lemma displace_loop_eq:
  "displace_loop i disp n p mem =
     (if \<forall>k. i \<le> k \<and> k < n \<longrightarrow> check (mem (p + sizeof_MatchPair * k))
      then Returns (\<lambda>a. if \<exists>k. i \<le> k \<and> k < n \<and> a = p + sizeof_MatchPair * k
                         then displacePair disp (mem a) else mem a)
      else AssertionFailure)"
proof (induction i disp n p mem rule: displace_loop.induct)
  case (1 i disp pairCount p mem)
  define X where "X k = p + sizeof_MatchPair * k" for k
  have Xinj: "(X j = X k) = (j = k)" for j k by (simp add: X_def sizeof_MatchPair_def)
  show ?case
  proof (cases "i < pairCount")
    case False
    have e: "(\<exists>k. i \<le> k \<and> k < pairCount \<and> P k) = False" for P using False by auto
    have a: "(\<forall>k. i \<le> k \<and> k < pairCount \<longrightarrow> Q k) = True" for Q using False by auto
    show ?thesis using False by (subst displace_loop.simps) (simp add: e a)
  next
    case True
    have le: "(i \<le> k) = (k = i \<or> i + 1 \<le> k)" for k by auto
    show ?thesis
    proof (cases "check (mem (X i))")
      case False
      have "\<not> (\<forall>k. i \<le> k \<and> k < pairCount \<longrightarrow> check (mem (X k)))"
        using False True by auto
      moreover have "displace_loop i disp pairCount p mem = AssertionFailure"
        using True False by (subst displace_loop.simps) (simp add: X_def Let_def)
      ultimately show ?thesis by (simp add: X_def)
    next
      case chk: True
      define mem' where "mem' = mem(X i := displacePair disp (mem (X i)))"
      have rec_eq: "\<lparr>start = start pr + (if start pr <s 0 then 0 else ucast disp),
                     limit = limit pr + (if limit pr <s 0 then 0 else ucast disp)\<rparr> =
                    displacePair disp pr" for pr
        by (simp add: displacePair_def)
      have step: "displace_loop i disp pairCount p mem = displace_loop (i + 1) disp pairCount p mem'"
        using True chk
        by (subst displace_loop.simps) (simp add: X_def Let_def mem'_def rec_eq del: fun_upd_apply)
      from chk have nn: "\<not> \<not> check (mem (p + sizeof_MatchPair * i))" by (simp add: X_def)
      have ih: "displace_loop (i + 1) disp pairCount p mem' =
          (if \<forall>k. i + 1 \<le> k \<and> k < pairCount \<longrightarrow> check (mem' (X k))
           then Returns (\<lambda>a. if \<exists>k. i + 1 \<le> k \<and> k < pairCount \<and> a = X k
                         then displacePair disp (mem' a) else mem' a)
           else AssertionFailure)"
        using "1.IH"[OF True refl nn]
        by (simp only: rec_eq X_def mem'_def)
      have later: "mem' (X k) = mem (X k)" if "i + 1 \<le> k" for k
        using that by (simp add: mem'_def Xinj)
      have c1: "(\<forall>k. i + 1 \<le> k \<and> k < pairCount \<longrightarrow> check (mem' (X k))) =
                (\<forall>k. i \<le> k \<and> k < pairCount \<longrightarrow> check (mem (X k)))"
        using later chk unfolding le by auto
      have c2: "(\<lambda>a. if \<exists>k. i + 1 \<le> k \<and> k < pairCount \<and> a = X k
                         then displacePair disp (mem' a) else mem' a) =
                (\<lambda>a. if \<exists>k. i \<le> k \<and> k < pairCount \<and> a = X k
                         then displacePair disp (mem a) else mem a)"
      proof
        fix a
        show "(if \<exists>k. i + 1 \<le> k \<and> k < pairCount \<and> a = X k
                         then displacePair disp (mem' a) else mem' a) =
              (if \<exists>k. i \<le> k \<and> k < pairCount \<and> a = X k
                         then displacePair disp (mem a) else mem a)"
        proof (cases "a = X i")
          case True
          have "\<not> (\<exists>k. i + 1 \<le> k \<and> k < pairCount \<and> a = X k)"
            using True Xinj by auto
          moreover have "\<exists>k. i \<le> k \<and> k < pairCount \<and> a = X k"
            using True \<open>i < pairCount\<close> by auto
          ultimately show ?thesis using True by (auto simp add: mem'_def Xinj)
        next
          case False
          have "(\<exists>k. i + 1 \<le> k \<and> k < pairCount \<and> a = X k) = (\<exists>k. i \<le> k \<and> k < pairCount \<and> a = X k)"
            using False unfolding le by auto
          moreover have "mem' a = mem a" using False by (simp add: mem'_def)
          ultimately show ?thesis by auto
        qed
      qed
      show ?thesis
        unfolding step ih c1 c2 by (simp add: X_def)
    qed
  qed
qed

lemma sint_neg1: "sint (-1 :: int32) = -1" by simp

lemma check_of_within: "withinInput k p \<Longrightarrow> check p"
  by (auto simp: withinInput_def check_def word_sle_eq)

lemma displacePair_0: "displacePair 0 p = p"
  by (simp add: displacePair_def)

lemma withinInput_displacePair:
  assumes "withinInput k p" "k + unat disp \<le> n" "n < 2 ^ 31"
  shows "withinInput n (displacePair disp p)"
proof (cases "start p = -1 \<and> limit p = -1")
  case True
  then show ?thesis by (simp add: withinInput_def displacePair_def word_sless_alt)
next
  case False
  with assms(1) have r: "0 \<le> sint (start p)" "sint (start p) \<le> sint (limit p)" "sint (limit p) \<le> int k"
    by (auto simp: withinInput_def)
  have n: "int k + int (unat disp) < 2 ^ 31"
    using assms(2,3) by (metis of_nat_add of_nat_less_numeral_power_cancel_iff order_le_less_trans of_nat_le_iff of_nat_less_iff)
  have b: "sint (limit p) + int (unat disp) < 2 ^ 31" "sint (start p) + int (unat disp) < 2 ^ 31"
    using r n by linarith+
  have s: "sint (start p + ucast disp) = sint (start p) + int (unat disp)"
    using sint_add_ucast[OF r(1) b(2)] .
  have l: "sint (limit p + ucast disp) = sint (limit p) + int (unat disp)"
    using sint_add_ucast[of "limit p" disp] r b by linarith
  have kn: "int k + uint disp \<le> int n"
    using of_nat_mono[OF assms(2), where 'a = int] by simp
  have "sint (limit p) + uint disp \<le> int n" "0 \<le> sint (start p) + uint disp"
       "sint (start p) + uint disp \<le> sint (limit p) + uint disp"
    using r kn by simp_all
  then show ?thesis
    using r s l by (simp add: withinInput_def displacePair_def word_sless_alt)
qed

lemma checkAgainst_iff:
  "checkAgainst L m = list_all (withinInput (unat L)) (pairsOf m)"
proof -
  have "(check p \<and> (start p = -1 \<or> (sint (start p) \<le> int (unat L) \<and> sint (limit p) \<le> int (unat L)))) =
        withinInput (unat L) p" for p
    by (auto simp: check_def withinInput_def word_sle_eq)
  then show ?thesis by (simp add: checkAgainst_def)
qed

lemma displace_pairs:
  assumes "displace disp m = Returns m'"
  shows "pairs' m' = pairs' m \<and> pairCount' m' = pairCount' m \<and>
         pairsOf m' = map (displacePair disp) (pairsOf m)"
proof (cases "disp = 0 \<or> pairCount' m = 0")
  case True
  with assms have "m' = m" by (auto simp: displace_def split: if_splits)
  with True show ?thesis
    by (auto simp: displacePair_0[abs_def] pairsOf_def split: option.splits)
next
  case False
  with assms obtain p mem where p: "pairs' m = Some p"
    and l: "displace_loop 0 disp (pairCount' m) p (memory m) = Returns mem"
    and m': "m' = m\<lparr>memory := mem\<rparr>"
    by (auto simp: displace_def split: option.splits outcome.splits)
  from l have mem: "mem = (\<lambda>a. if \<exists>k. 0 \<le> k \<and> k < pairCount' m \<and> a = p + sizeof_MatchPair * k
                         then displacePair disp (memory m a) else memory m a)"
    unfolding displace_loop_eq by (auto split: if_splits)
  have "map (\<lambda>i. mem (p + sizeof_MatchPair * i)) [0..<pairCount' m] =
        map (displacePair disp) (map (\<lambda>i. memory m (p + sizeof_MatchPair * i)) [0..<pairCount' m])"
    unfolding mem by (auto simp: sizeof_MatchPair_def)
  then show ?thesis using p m' by (simp add: pairsOf_def)
qed

lemma displace_Returns:
  assumes "pairs' m \<noteq> None" "list_all check (pairsOf m)"
  shows "\<exists>m'. displace disp m = Returns m'"
proof -
  from assms(1) obtain p where p: "pairs' m = Some p" by auto
  have "\<forall>k. 0 \<le> k \<and> k < pairCount' m \<longrightarrow> check (memory m (p + sizeof_MatchPair * k))"
    using assms(2) p by (auto simp: pairsOf_def list_all_iff)
  then show ?thesis
    using p by (simp add: displace_def displace_loop_eq)
qed

lemma displaceAndCheck_within:
  assumes "pairs' m2 \<noteq> None" "list_all (withinInput k) (pairsOf m2)"
    "k + unat disp \<le> unat L" "unat L < 2 ^ 31"
  shows "\<exists>m3. displaceAndCheck disp L (Some m2) = Returns (Some m3) \<and>
           pairs' m3 = pairs' m2 \<and> pairCount' m3 = pairCount' m2 \<and>
           pairsOf m3 = map (displacePair disp) (pairsOf m2) \<and>
           list_all (withinInput (unat L)) (pairsOf m3)"
proof -
  have "list_all check (pairsOf m2)"
    using assms(2) check_of_within by (auto simp: list_all_iff)
  from displace_Returns[OF assms(1) this] obtain m3 where d: "displace disp m2 = Returns m3"
    by blast
  from displace_pairs[OF d] have p: "pairs' m3 = pairs' m2" "pairCount' m3 = pairCount' m2"
    "pairsOf m3 = map (displacePair disp) (pairsOf m2)" by simp_all
  have w: "list_all (withinInput (unat L)) (pairsOf m3)"
    unfolding p(3) using assms(2-4) withinInput_displacePair
    by (auto simp: list_all_iff)
  then have "checkAgainst L m3" by (simp add: checkAgainst_iff)
  with d p w show ?thesis by (simp add: displaceAndCheck_def)
qed


section \<open>Compilation and the literal path\<close>

lemma charCodes_AtomizeChars: "charCodes (AtomizeChars cs) = map unat cs"
proof (cases "list_all (\<lambda>c. unat c < 256) cs")
  case True
  have "unat (ucast c :: Latin1Char) = unat c" if "unat c < 256" for c :: char16_t
    using that by (simp add: unsigned_ucast_eq take_bit_nat_eq_self)
  with True show ?thesis
    by (auto simp: AtomizeChars_def list_all_iff)
next
  case False
  then show ?thesis by (simp add: AtomizeChars_def)
qed

lemma wrapped_has_meta:
  "StringHasRegExpMetaChars (AtomizeChars (cstr ''^(?:'' @ cs @ cstr '')''))"
  by (simp add: StringHasRegExpMetaChars_def charCodes_AtomizeChars cstr_def IsRegExpMetaChar_def)

lemma compile_pattern_facts:
  assumes "compile_pattern env pat input mode r = Returns (ok, r1)"
  shows "source r1 = source r \<and> flags r1 = flags r \<and> marked' r1 = marked' r \<and>
         length (compilationArray r1) = length (compilationArray r) \<and>
         (canStringMatch r1 = (canStringMatch r \<or> (\<not> ignoreCase r \<and> \<not> StringHasRegExpMetaChars pat))) \<and>
         (\<not> ignoreCase r \<and> \<not> StringHasRegExpMetaChars pat \<longrightarrow>
            ok \<and> parenCount r1 = 0 \<and> compilationArray r1 = compilationArray r)"
  using assms unfolding compile_pattern_def Let_def
  by (auto split: if_splits option.splits)

lemma compile_facts:
  assumes "compile env input mode r = Returns (ok, r1)"
  shows "source r1 = source r \<and> flags r1 = flags r \<and> marked' r1 = marked' r \<and>
         length (compilationArray r1) = length (compilationArray r) \<and>
         (canStringMatch r1 = (canStringMatch r \<or> literalEligible r)) \<and>
         (literalEligible r \<longrightarrow> ok \<and> parenCount r1 = 0 \<and> compilationArray r1 = compilationArray r)"
proof (cases "sticky r")
  case False
  with assms have "compile_pattern env (source r) input mode r = Returns (ok, r1)"
    by (simp add: compile_def)
  from compile_pattern_facts[OF this] False show ?thesis
    by (simp add: literalEligible_def)
next
  case True
  show ?thesis
  proof (cases "r1 = r")
    case True
    with \<open>sticky r\<close> show ?thesis by (simp add: literalEligible_def)
  next
    case False
    with assms True obtain sb where
      "compile_pattern env (AtomizeChars (cstr ''^(?:'' @ twoByteContent (source r) @ cstr '')'')) input mode r
         = Returns (ok, r1)"
      unfolding compile_def Let_def
      by (auto simp: reserve_def append_sb_def infallibleAppend_def finishAtom_def
               split: option.splits if_splits)
    from compile_pattern_facts[OF this] True show ?thesis
      by (simp add: literalEligible_def wrapped_has_meta)
  qed
qed

lemma compileIfNecessary_literal:
  "canStringMatch r \<Longrightarrow> compileIfNecessary env input mode r = Returns (True, r)"
  by (simp add: compileIfNecessary_def)

lemma execute_literal_matchOnly:
  assumes "canStringMatch r" "\<not> sticky r" "parenCount r = 0"
  shows "execute env rt r input s None =
           Some (Returns (if StringFindPattern input (source r) s = -1
                          then RegExpRunStatus_Success_NotFound else RegExpRunStatus_Success,
                          r, None, rt))"
  using assms
  by (simp add: execute_def compileIfNecessary_literal stickyWindow_def execute_stringMatch_def
        pairCount_def Let_def)



lemma literalEligible_cong:
  "source r1 = source r \<Longrightarrow> flags r1 = flags r \<Longrightarrow> literalEligible r1 = literalEligible r"
  by (simp add: literalEligible_def sticky_def ignoreCase_def)

lemma CompilationIndex_less: "CompilationIndex md l1 < 4"
  by (cases md) simp_all

lemma literalInvariant_new: "literalInvariant (RegExpShared src fl)"
  by (simp add: literalInvariant_def RegExpShared_def compiled_def)

lemma literalInvariant_compile:
  assumes "literalInvariant r" "compile env input mode r = Returns (ok, r1)"
  shows "literalInvariant r1"
proof -
  from compile_facts[OF assms(2)] have
    f: "source r1 = source r" "flags r1 = flags r"
       "length (compilationArray r1) = length (compilationArray r)"
       "canStringMatch r1 = (canStringMatch r \<or> literalEligible r)"
       "literalEligible r \<Longrightarrow> parenCount r1 = 0 \<and> compilationArray r1 = compilationArray r"
    by simp_all
  have e: "literalEligible r1 = literalEligible r"
    using f(1,2) by (rule literalEligible_cong)
  from assms(1) have
    i: "canStringMatch r \<Longrightarrow> literalEligible r \<and> parenCount r = 0"
       "literalEligible r \<Longrightarrow> list_all (\<lambda>c. \<not> compiled c) (compilationArray r)"
       "length (compilationArray r) = 4"
    unfolding literalInvariant_def by blast+
  show ?thesis
  proof (cases "literalEligible r")
    case True
    from f(5)[OF True] i(2)[OF True] i(3) f(3) e True show ?thesis
      unfolding literalInvariant_def by simp
  next
    case False
    with i(1) have "\<not> canStringMatch r" by blast
    with False f(4) have "\<not> canStringMatch r1" by simp
    with False e f(3) i(3) show ?thesis
      unfolding literalInvariant_def by simp
  qed
qed

lemma literalInvariant_compileIfNecessary:
  assumes "literalInvariant r" "compileIfNecessary env input mode r = Returns (ok, r1)"
  shows "literalInvariant r1"
proof (cases "isCompiled r mode (hasLatin1Chars input) \<or> canStringMatch r")
  case True
  with assms(2) have "r1 = r" by (simp add: compileIfNecessary_def)
  with assms(1) show ?thesis by simp
next
  case False
  with assms(2) have "compile env input mode r = Returns (ok, r1)"
    by (simp add: compileIfNecessary_def)
  with assms(1) show ?thesis by (rule literalInvariant_compile)
qed


section \<open>Execution\<close>

lemma compileIfNecessary_facts:
  assumes "compileIfNecessary env input mode r = Returns (ok, r1)"
  shows "source r1 = source r \<and> flags r1 = flags r \<and>
         (\<not> literalEligible r \<longrightarrow> canStringMatch r1 = canStringMatch r)"
proof (cases "isCompiled r mode (hasLatin1Chars input) \<or> canStringMatch r")
  case True
  with assms have "r1 = r" by (simp add: compileIfNecessary_def)
  then show ?thesis by simp
next
  case False
  with assms have "compile env input mode r = Returns (ok, r1)"
    by (simp add: compileIfNecessary_def)
  from compile_facts[OF this] show ?thesis by simp
qed

lemma sticky_kept:
  assumes "sticky r" "compileIfNecessary env input mode r = Returns (ok, r1)"
  shows "sticky r1 \<and> canStringMatch r1 = canStringMatch r"
  using compileIfNecessary_facts[OF assms(2)] assms(1)
  by (simp add: literalEligible_def sticky_def)

lemma alloc_success:
  assumes "allocOrExpandArray n m = Returns (True, m1)" "0 < n"
  shows "pairs' m1 \<noteq> None \<and> pairCount' m1 = n"
proof (cases "discipline m")
  case Scoped
  with assms(1) have "ScopedMatchPairs_allocOrExpandArray n m = Returns (True, m1)"
    by (simp add: allocOrExpandArray_def)
  from Scoped_alloc_True[OF this assms(2)] show ?thesis by simp
next
  case Growable
  with assms(1) have "VectorMatchPairs_allocOrExpandArray n m = Returns (True, m1)"
    by (simp add: allocOrExpandArray_def)
  then show ?thesis
    unfolding VectorMatchPairs_allocOrExpandArray_def
    by (auto split: prod.splits bool.splits if_splits)
qed

lemma execute_byteCode_Normal:
  assumes "compileIfNecessary env input Normal r = Returns (True, r1)"
    "allocOrExpandArray (pairCount r1) m = Returns (True, m1)"
    "\<not> canStringMatch r1"
    "byteCode (compilation r1 Normal (hasLatin1Chars input)) = Some bc"
    "stickyWindow (sticky r1) (of_nat (length_str input)) s = (charsOffset, len, disp, s1)"
  shows "execute env rt r input s (Some m) =
           Some (map_outcome (\<lambda>((result, matches2), rt1). (result, r1, matches2, rt1))
                   (execute_byteCode env rt bc input charsOffset s1 len disp
                      (of_nat (length_str input)) (Some m1)))"
  by (simp add: execute_def assms)

lemma execute_jit_Normal:
  assumes "compileIfNecessary env input Normal r = Returns (True, r1)"
    "allocOrExpandArray (pairCount r1) m = Returns (True, m1)"
    "\<not> canStringMatch r1"
    "byteCode (compilation r1 Normal (hasLatin1Chars input)) = None"
    "stickyWindow (sticky r1) (of_nat (length_str input)) s = (charsOffset, len, disp, s1)"
  shows "execute env rt r input s (Some m) =
           (case execute_jit_loop env (jitCode (compilation r1 Normal (hasLatin1Chars input)))
                   (dropChars (unat charsOffset) input) s1 len (Some m1) rt of
              None \<Rightarrow> None
            | Some ((result, matches2), rt1) \<Rightarrow>
                if result = RegExpRunStatus_Success then
                  Some (map_outcome (\<lambda>matches3. (RegExpRunStatus_Success, r1, matches3, rt1))
                          (displaceAndCheck disp (of_nat (length_str input)) matches2))
                else Some (Returns (result, r1, matches2, rt1)))"
  by (simp add: execute_def assms split: option.splits prod.splits)

lemma execute_literal_Normal:
  assumes "compileIfNecessary env input Normal r = Returns (True, r1)"
    "allocOrExpandArray (pairCount r1) m = Returns (True, m1)"
    "canStringMatch r1"
    "stickyWindow (sticky r1) (of_nat (length_str input)) s = (charsOffset, len, disp, s1)"
  shows "execute env rt r input s (Some m) =
           Some (map_outcome (\<lambda>(result, matches2). (result, r1, matches2, rt))
                   (execute_stringMatch r1 input s1 charsOffset (of_nat (length_str input)) (Some m1)))"
  by (simp add: execute_def assms)

lemma execute_byteCode_MatchOnly:
  assumes "compileIfNecessary env input MatchOnly r = Returns (True, r1)"
    "\<not> canStringMatch r1"
    "byteCode (compilation r1 MatchOnly (hasLatin1Chars input)) = Some bc"
    "stickyWindow (sticky r1) (of_nat (length_str input)) s = (charsOffset, len, disp, s1)"
  shows "execute env rt r input s None =
           Some (map_outcome (\<lambda>((result, matches2), rt1). (result, r1, matches2, rt1))
                   (execute_byteCode env rt bc input charsOffset s1 len disp
                      (of_nat (length_str input)) None))"
  by (simp add: execute_def assms)

lemma execute_jit_MatchOnly:
  assumes "compileIfNecessary env input MatchOnly r = Returns (True, r1)"
    "\<not> canStringMatch r1"
    "byteCode (compilation r1 MatchOnly (hasLatin1Chars input)) = None"
    "stickyWindow (sticky r1) (of_nat (length_str input)) s = (charsOffset, len, disp, s1)"
  shows "execute env rt r input s None =
           (case execute_jit_loop env (jitCode (compilation r1 MatchOnly (hasLatin1Chars input)))
                   (dropChars (unat charsOffset) input) s1 len None rt of
              None \<Rightarrow> None
            | Some ((result, matches2), rt1) \<Rightarrow>
                if result = RegExpRunStatus_Success then
                  Some (Returns (RegExpRunStatus_Success, r1, matches2, rt1))
                else Some (Returns (result, r1, matches2, rt1)))"
  by (simp add: execute_def assms split: option.splits prod.splits)

lemma stickyWindow_sticky:
  "stickyWindow True L s = (s, L - s, s, 0)"
  by (simp add: stickyWindow_def)

lemma stickyWindow_plain:
  "stickyWindow False L s = (0, L, 0, s)"
  by (simp add: stickyWindow_def)

lemma displacePair_start:
  "start p = -1 \<Longrightarrow> start (displacePair d p) = -1"
  "limit p = -1 \<Longrightarrow> limit (displacePair d p) = -1"
  "0 \<le> sint (start p) \<Longrightarrow> sint (start p) + int (unat d) < 2 ^ 31 \<Longrightarrow>
     sint (start (displacePair d p)) = sint (start p) + int (unat d)"
  "0 \<le> sint (limit p) \<Longrightarrow> sint (limit p) + int (unat d) < 2 ^ 31 \<Longrightarrow>
     sint (limit (displacePair d p)) = sint (limit p) + int (unat d)"
  using sint_add_ucast[of "start p" d] sint_add_ucast[of "limit p" d]
  by (simp_all add: displacePair_def word_sless_alt)

lemma displaceAndCheck_pairs:
  assumes "displaceAndCheck d L (Some m2) = Returns (Some m3)"
  shows "pairsOf m3 = map (displacePair d) (pairsOf m2)"
proof -
  from assms have "displace d m2 = Returns m3"
    by (auto simp: displaceAndCheck_def split: outcome.splits if_splits)
  from displace_pairs[OF this] show ?thesis by simp
qed


lemma jit_loop_retry:
  assumes "ExecuteCode env rt code chars s len mm = ((RegExpRunStatus_Error, mm1), rt1)"
    "interrupt env rt1" "InvokeInterruptCallback env rt1 = (True, rt2)"
  shows "execute_jit_loop env code chars s len mm rt = execute_jit_loop env code chars s len mm1 rt2"
  using assms by (subst execute_jit_loop.simps) simp

lemma jit_loop_terminate:
  assumes "ExecuteCode env rt code chars s len mm = ((RegExpRunStatus_Error, mm1), rt1)"
    "interrupt env rt1" "InvokeInterruptCallback env rt1 = (False, rt2)"
  shows "execute_jit_loop env code chars s len mm rt = Some ((RegExpRunStatus_Error, mm1), rt2)"
  using assms by (subst execute_jit_loop.simps) simp

lemma jit_loop_internal_error:
  assumes "ExecuteCode env rt code chars s len mm = ((RegExpRunStatus_Error, mm1), rt1)"
    "\<not> interrupt env rt1"
  shows "execute_jit_loop env code chars s len mm rt =
           Some ((RegExpRunStatus_Error, mm1), js_ReportOverRecursed env rt1)"
  using assms by (subst execute_jit_loop.simps) simp

lemma jit_loop_clean:
  assumes "ExecuteCode env rt code chars s len mm = ((st, mm1), rt1)" "st \<noteq> RegExpRunStatus_Error"
  shows "execute_jit_loop env code chars s len mm rt = Some ((st, mm1), rt1)"
  using assms by (subst execute_jit_loop.simps) (cases st; simp)

lemma compile_pattern_compiled:
  assumes "compile_pattern env pat input mode r = Returns (True, r1)"
    "length (compilationArray r) = 4"
  shows "isCompiled r1 mode (hasLatin1Chars input) \<or> canStringMatch r1"
  using assms CompilationIndex_less[of mode "hasLatin1Chars input"]
  unfolding compile_pattern_def Let_def isCompiled_def compilation_def compiled_def empty_code_def
  by (auto split: if_splits option.splits)

lemma compile_compiled:
  assumes "compile env input mode r = Returns (True, r1)" "length (compilationArray r) = 4"
  shows "isCompiled r1 mode (hasLatin1Chars input) \<or> canStringMatch r1"
proof (cases "sticky r")
  case False
  with assms(1) have "compile_pattern env (source r) input mode r = Returns (True, r1)"
    by (simp add: compile_def)
  from compile_pattern_compiled[OF this assms(2)] show ?thesis .
next
  case True
  with assms(1) obtain pat where "compile_pattern env pat input mode r = Returns (True, r1)"
    unfolding compile_def Let_def
    by (auto split: option.splits if_splits)
  from compile_pattern_compiled[OF this assms(2)] show ?thesis .
qed

lemma compileIfNecessary_compiled:
  assumes "compileIfNecessary env input mode r = Returns (True, r1)"
    "length (compilationArray r) = 4"
  shows "isCompiled r1 mode (hasLatin1Chars input) \<or> canStringMatch r1"
proof (cases "isCompiled r mode (hasLatin1Chars input) \<or> canStringMatch r")
  case True
  with assms(1) have "r1 = r" by (simp add: compileIfNecessary_def)
  with True show ?thesis by simp
next
  case False
  with assms(1) have "compile env input mode r = Returns (True, r1)"
    by (simp add: compileIfNecessary_def)
  from compile_compiled[OF this assms(2)] show ?thesis .
qed

lemma compileIfNecessary_again:
  assumes "compileIfNecessary env input mode r = Returns (True, r1)"
    "length (compilationArray r) = 4"
  shows "compileIfNecessary env input mode r1 = Returns (True, r1)"
  using compileIfNecessary_compiled[OF assms] by (simp add: compileIfNecessary_def)


lemma alloc_again:
  assumes "allocOrExpandArray n m = Returns (True, m1)" "0 < n" "discipline m = Scoped"
  shows "allocOrExpandArray n m1 = Returns (True, m1)"
proof -
  from assms(1,3) have a: "ScopedMatchPairs_allocOrExpandArray n m = Returns (True, m1)"
    by (simp add: allocOrExpandArray_def)
  from Scoped_alloc_True[OF a assms(2)] assms(3)
  have "pairCount' m1 = n" "pairs' m1 \<noteq> None" "discipline m1 = Scoped" by simp_all
  with Scoped_alloc_again[of m1 n n] assms(2) show ?thesis
    by (simp add: allocOrExpandArray_def)
qed

lemma jit_loop_provenance:
  assumes "execute_jit_loop env code chars s len mt rt = Some out"
  shows "\<forall>st mo rt1. out = ((st, mo), rt1) \<longrightarrow> st \<noteq> RegExpRunStatus_Error \<longrightarrow>
           (\<exists>rt' mm. ExecuteCode env rt' code chars s len mm = ((st, mo), rt1))"
  using assms
proof (induction env code chars s len mt rt out rule: execute_jit_loop.raw_induct[rotated 1, consumes 1])
  case (1 loop env code chars s len mt rt out)
  obtain result matches1 rt1 where
    e: "ExecuteCode env rt code chars s len mt = ((result, matches1), rt1)"
    by (metis prod.exhaust)
  note body = "1.hyps"[unfolded e prod.case]
  show ?case
  proof (cases "result = RegExpRunStatus_Error")
    case False
    with body have "out = ((result, matches1), rt1)"
      by (cases result) simp_all
    with e show ?thesis by blast
  next
    case True
    show ?thesis
    proof (cases "interrupt env rt1")
      case False
      with True body have "out = ((RegExpRunStatus_Error, matches1), js_ReportOverRecursed env rt1)"
        by simp
      then show ?thesis by simp
    next
      case i: True
      obtain ok rt2 where cb: "InvokeInterruptCallback env rt1 = (ok, rt2)" by (metis prod.exhaust)
      show ?thesis
      proof (cases ok)
        case False
        with True i cb body have "out = ((RegExpRunStatus_Error, matches1), rt2)" by simp
        then show ?thesis by simp
      next
        case k: True
        with True i cb body have "loop env code chars s len matches1 rt2 = Some out" by simp
        from "1.IH"[OF this] show ?thesis .
      qed
    qed
  qed
qed

lemma jit_loop_contract:
  assumes "execute_jit_loop env code chars s len mt rt = Some out"
  shows
    "(\<forall>rt' mm st mm' rt''.
        pairs' mm \<noteq> None \<and> pairCount' mm = n \<and>
        ExecuteCode env rt' code chars s len (Some mm) = ((st, mm'), rt'') \<longrightarrow>
        (\<exists>m''. mm' = Some m'' \<and> pairs' m'' \<noteq> None \<and> pairCount' m'' = n \<and>
              (st = RegExpRunStatus_Success \<longrightarrow> list_all (withinInput (unat len)) (pairsOf m'')))) \<longrightarrow>
     (\<exists>mm. mt = Some mm \<and> pairs' mm \<noteq> None \<and> pairCount' mm = n) \<longrightarrow>
     (\<exists>st m2 rt1. out = ((st, Some m2), rt1) \<and> pairs' m2 \<noteq> None \<and> pairCount' m2 = n \<and>
           (st = RegExpRunStatus_Success \<longrightarrow> list_all (withinInput (unat len)) (pairsOf m2)))"
  using assms
proof (induction env code chars s len mt rt out rule: execute_jit_loop.raw_induct[rotated 1, consumes 1])
  case (1 loop env code chars s len mt rt out)
  show ?case
  proof (intro impI)
    assume contract: "\<forall>rt' mm st mm' rt''.
        pairs' mm \<noteq> None \<and> pairCount' mm = n \<and>
        ExecuteCode env rt' code chars s len (Some mm) = ((st, mm'), rt'') \<longrightarrow>
        (\<exists>m''. mm' = Some m'' \<and> pairs' m'' \<noteq> None \<and> pairCount' m'' = n \<and>
              (st = RegExpRunStatus_Success \<longrightarrow> list_all (withinInput (unat len)) (pairsOf m'')))"
    assume "\<exists>mm. mt = Some mm \<and> pairs' mm \<noteq> None \<and> pairCount' mm = n"
    then obtain mm where mm: "mt = Some mm" "pairs' mm \<noteq> None" "pairCount' mm = n"
      by blast
    obtain result matches1 rt1 where
      e: "ExecuteCode env rt code chars s len (Some mm) = ((result, matches1), rt1)"
      by (metis prod.exhaust)
    from contract mm(2,3) e obtain m'' where
      m'': "matches1 = Some m''" "pairs' m'' \<noteq> None" "pairCount' m'' = n"
           "result = RegExpRunStatus_Success \<longrightarrow> list_all (withinInput (unat len)) (pairsOf m'')"
      by blast
    note body = "1.hyps"[unfolded mm(1) e prod.case]
    show "\<exists>st m2 rt1. out = ((st, Some m2), rt1) \<and> pairs' m2 \<noteq> None \<and> pairCount' m2 = n \<and>
           (st = RegExpRunStatus_Success \<longrightarrow> list_all (withinInput (unat len)) (pairsOf m2))"
    proof (cases "result = RegExpRunStatus_Error")
      case False
      with body have "out = ((result, matches1), rt1)"
        by (cases result) simp_all
      with m'' show ?thesis by blast
    next
      case True
      show ?thesis
      proof (cases "interrupt env rt1")
        case False
        with True body have "out = ((RegExpRunStatus_Error, matches1), js_ReportOverRecursed env rt1)"
          by simp
        with m'' show ?thesis by blast
      next
        case i: True
        obtain ok rt2 where cb: "InvokeInterruptCallback env rt1 = (ok, rt2)" by (metis prod.exhaust)
        show ?thesis
        proof (cases ok)
          case False
          with True i cb body have "out = ((RegExpRunStatus_Error, matches1), rt2)" by simp
          with m'' show ?thesis by blast
        next
          case k: True
          with True i cb body have "loop env code chars s len matches1 rt2 = Some out" by simp
          from "1.IH"[OF this] contract m''(1,2,3)
          show ?thesis by blast
        qed
      qed
    qed
  qed
qed

lemma execute_native_first_run:
  assumes c: "compileIfNecessary env input Normal r = Returns (True, r1)"
    and a: "allocOrExpandArray (pairCount r1) m = Returns (True, m1)"
    and n: "\<not> canStringMatch r1"
    and b: "byteCode (compilation r1 Normal (hasLatin1Chars input)) = None"
    and w: "stickyWindow (sticky r1) (of_nat (length_str input)) s = (charsOffset, len, disp, s1)"
    and e: "ExecuteCode env rt (jitCode (compilation r1 Normal (hasLatin1Chars input)))
              (dropChars (unat charsOffset) input) s1 len (Some m1) = ((result, matches1), rt1)"
  shows
    "result = RegExpRunStatus_Success \<Longrightarrow>
       execute env rt r input s (Some m) =
         Some (map_outcome (\<lambda>matches2. (RegExpRunStatus_Success, r1, matches2, rt1))
                 (displaceAndCheck disp (of_nat (length_str input)) matches1))"
    "result = RegExpRunStatus_Success_NotFound \<Longrightarrow>
       execute env rt r input s (Some m) =
         Some (Returns (RegExpRunStatus_Success_NotFound, r1, matches1, rt1))"
    "result = RegExpRunStatus_Error \<Longrightarrow> \<not> interrupt env rt1 \<Longrightarrow>
       execute env rt r input s (Some m) =
         Some (Returns (RegExpRunStatus_Error, r1, matches1, js_ReportOverRecursed env rt1))"
    "result = RegExpRunStatus_Error \<Longrightarrow> interrupt env rt1 \<Longrightarrow>
     InvokeInterruptCallback env rt1 = (False, rt2) \<Longrightarrow>
       execute env rt r input s (Some m) =
         Some (Returns (RegExpRunStatus_Error, r1, matches1, rt2))"
    "result = RegExpRunStatus_Error \<Longrightarrow> interrupt env rt1 \<Longrightarrow>
     InvokeInterruptCallback env rt1 = (True, rt2) \<Longrightarrow> matches1 = Some m1' \<Longrightarrow>
     allocOrExpandArray (pairCount r1) m1' = Returns (True, m1') \<Longrightarrow>
     length (compilationArray r) = 4 \<Longrightarrow>
       execute env rt r input s (Some m) = execute env rt2 r1 input s (Some m1')"
proof -
  note p = execute_jit_Normal[OF c a n b w]
  show "execute env rt r input s (Some m) =
         Some (map_outcome (\<lambda>matches2. (RegExpRunStatus_Success, r1, matches2, rt1))
                 (displaceAndCheck disp (of_nat (length_str input)) matches1))"
    if "result = RegExpRunStatus_Success"
    using that e by (simp add: p jit_loop_clean[where st = RegExpRunStatus_Success])
  show "execute env rt r input s (Some m) =
         Some (Returns (RegExpRunStatus_Success_NotFound, r1, matches1, rt1))"
    if "result = RegExpRunStatus_Success_NotFound"
    using that e by (simp add: p jit_loop_clean[where st = RegExpRunStatus_Success_NotFound])
  show "execute env rt r input s (Some m) =
         Some (Returns (RegExpRunStatus_Error, r1, matches1, js_ReportOverRecursed env rt1))"
    if "result = RegExpRunStatus_Error" "\<not> interrupt env rt1"
    using that e by (simp add: p jit_loop_internal_error)
  show "execute env rt r input s (Some m) =
         Some (Returns (RegExpRunStatus_Error, r1, matches1, rt2))"
    if "result = RegExpRunStatus_Error" "interrupt env rt1"
       "InvokeInterruptCallback env rt1 = (False, rt2)"
    using that e by (simp add: p jit_loop_terminate)
  show "execute env rt r input s (Some m) = execute env rt2 r1 input s (Some m1')"
    if t: "result = RegExpRunStatus_Error" "interrupt env rt1"
       "InvokeInterruptCallback env rt1 = (True, rt2)" "matches1 = Some m1'"
       "allocOrExpandArray (pairCount r1) m1' = Returns (True, m1')"
       "length (compilationArray r) = 4"
  proof -
    note again = compileIfNecessary_again[OF c t(6)]
    note p' = execute_jit_Normal[OF again t(5) n b w]
    from e t(1,4) have e': "ExecuteCode env rt (jitCode (compilation r1 Normal (hasLatin1Chars input)))
              (dropChars (unat charsOffset) input) s1 len (Some m1) = ((RegExpRunStatus_Error, Some m1'), rt1)"
      by simp
    show ?thesis
      unfolding p p' jit_loop_retry[OF e' t(2,3)] ..
  qed
qed

text \<open>
  Claim C2. For a sticky pattern and a start offset within the input, \<open>execute\<close> with a
  capture buffer runs the engine on the characters from the start offset on, searching from
  position 0 over the remaining length: the interpreter if the slot holds bytecode, the
  native code otherwise. When the engine reports a match, the buffer it has filled is
  displaced by the start offset and checked, and that is the result; when it reports no
  match, or an error that is not an interrupt to be retried, its status is the result. When
  the native code is interrupted and the callback permits continuation, the call goes on as
  a call started afresh on the record, buffer and runtime as they then are; and whatever the
  number of attempts, a match or a miss that \<open>execute\<close> reports on the native path is what a
  run of the native code on that same slice has reported. Displacing adds the start offset
  to every offset that is not negative and leaves \<open>-1\<close> alone.
\<close>

theorem execute_sticky_displacement:
  assumes "sticky r" "\<not> canStringMatch r" "unat s \<le> length_str input"
    and "compileIfNecessary env input Normal r = Returns (True, r1)"
    and "allocOrExpandArray (pairCount r1) m = Returns (True, m1)"
  shows
    "(byteCode (compilation r1 Normal (hasLatin1Chars input)) = Some bc \<and>
      inputCharsInit env rt input \<longrightarrow>
        execute env rt r input s (Some m) =
          (case InterpretCode env rt bc (dropChars (unat s) input) 0
                  (of_nat (length_str input) - s) (Some m1) of
             ((result, matches1), rt1) \<Rightarrow>
               if result = RegExpRunStatus_Success
               then Some (map_outcome (\<lambda>matches2. (RegExpRunStatus_Success, r1, matches2, rt1))
                            (displaceAndCheck s (of_nat (length_str input)) matches1))
               else Some (Returns (result, r1, matches1, rt1)))) \<and>
     (byteCode (compilation r1 Normal (hasLatin1Chars input)) = None \<and>
      ExecuteCode env rt (jitCode (compilation r1 Normal (hasLatin1Chars input)))
        (dropChars (unat s) input) 0 (of_nat (length_str input) - s) (Some m1) =
        ((result, matches1), rt1) \<longrightarrow>
        (result = RegExpRunStatus_Success \<longrightarrow>
           execute env rt r input s (Some m) =
             Some (map_outcome (\<lambda>matches2. (RegExpRunStatus_Success, r1, matches2, rt1))
                     (displaceAndCheck s (of_nat (length_str input)) matches1))) \<and>
        (result = RegExpRunStatus_Success_NotFound \<longrightarrow>
           execute env rt r input s (Some m) =
             Some (Returns (RegExpRunStatus_Success_NotFound, r1, matches1, rt1))) \<and>
        (result = RegExpRunStatus_Error \<and> \<not> interrupt env rt1 \<longrightarrow>
           execute env rt r input s (Some m) =
             Some (Returns (RegExpRunStatus_Error, r1, matches1, js_ReportOverRecursed env rt1))) \<and>
        (result = RegExpRunStatus_Error \<and> interrupt env rt1 \<and>
         InvokeInterruptCallback env rt1 = (False, rt2) \<longrightarrow>
           execute env rt r input s (Some m) =
             Some (Returns (RegExpRunStatus_Error, r1, matches1, rt2))) \<and>
        (result = RegExpRunStatus_Error \<and> interrupt env rt1 \<and>
         InvokeInterruptCallback env rt1 = (True, rt2) \<and> matches1 = Some m1' \<and>
         allocOrExpandArray (pairCount r1) m1' = Returns (True, m1') \<and>
         length (compilationArray r) = 4 \<longrightarrow>
           execute env rt r input s (Some m) = execute env rt2 r1 input s (Some m1'))) \<and>
     (byteCode (compilation r1 Normal (hasLatin1Chars input)) = None \<longrightarrow>
        (\<forall>m3 rt3.
           execute env rt r input s (Some m) =
             Some (Returns (RegExpRunStatus_Success, r1, Some m3, rt3)) \<longrightarrow>
           (\<exists>rt' mm m2.
              ExecuteCode env rt' (jitCode (compilation r1 Normal (hasLatin1Chars input)))
                (dropChars (unat s) input) 0 (of_nat (length_str input) - s) mm =
                ((RegExpRunStatus_Success, Some m2), rt3) \<and>
              pairsOf m3 = map (displacePair s) (pairsOf m2))) \<and>
        (\<forall>mo rt3.
           execute env rt r input s (Some m) =
             Some (Returns (RegExpRunStatus_Success_NotFound, r1, mo, rt3)) \<longrightarrow>
           (\<exists>rt' mm.
              ExecuteCode env rt' (jitCode (compilation r1 Normal (hasLatin1Chars input)))
                (dropChars (unat s) input) 0 (of_nat (length_str input) - s) mm =
                ((RegExpRunStatus_Success_NotFound, mo), rt3)))) \<and>
     (\<forall>m2 m3. displaceAndCheck s (of_nat (length_str input)) (Some m2) = Returns (Some m3) \<longrightarrow>
        pairsOf m3 = map (displacePair s) (pairsOf m2)) \<and>
     (\<forall>p. (start p = -1 \<longrightarrow> start (displacePair s p) = -1) \<and>
          (limit p = -1 \<longrightarrow> limit (displacePair s p) = -1) \<and>
          (0 \<le> sint (start p) \<and> sint (start p) + int (unat s) < 2 ^ 31 \<longrightarrow>
             sint (start (displacePair s p)) = sint (start p) + int (unat s)) \<and>
          (0 \<le> sint (limit p) \<and> sint (limit p) + int (unat s) < 2 ^ 31 \<longrightarrow>
             sint (limit (displacePair s p)) = sint (limit p) + int (unat s)))"
proof -
  from sticky_kept[OF assms(1,4)] assms(2) have k: "sticky r1" "\<not> canStringMatch r1" by simp_all
  have w: "stickyWindow (sticky r1) (of_nat (length_str input)) s =
             (s, of_nat (length_str input) - s, s, 0)"
    using k(1) by (simp add: stickyWindow_sticky)
  define L :: size_t where "L = of_nat (length_str input)"
  define code where "code = jitCode (compilation r1 Normal (hasLatin1Chars input))"
  have a: "execute env rt r input s (Some m) =
          (case InterpretCode env rt bc (dropChars (unat s) input) 0
                  (of_nat (length_str input) - s) (Some m1) of
             ((result, matches1), rt1) \<Rightarrow>
               if result = RegExpRunStatus_Success
               then Some (map_outcome (\<lambda>matches2. (RegExpRunStatus_Success, r1, matches2, rt1))
                            (displaceAndCheck s (of_nat (length_str input)) matches1))
               else Some (Returns (result, r1, matches1, rt1)))"
    if "byteCode (compilation r1 Normal (hasLatin1Chars input)) = Some bc \<and> inputCharsInit env rt input"
    unfolding execute_byteCode_Normal[OF assms(4,5) k(2) that[THEN conjunct1] w] execute_byteCode_def
    using that
    by (auto split: prod.splits outcome.splits)
  have b: "(result = RegExpRunStatus_Success \<longrightarrow>
           execute env rt r input s (Some m) =
             Some (map_outcome (\<lambda>matches2. (RegExpRunStatus_Success, r1, matches2, rt1))
                     (displaceAndCheck s L matches1))) \<and>
        (result = RegExpRunStatus_Success_NotFound \<longrightarrow>
           execute env rt r input s (Some m) =
             Some (Returns (RegExpRunStatus_Success_NotFound, r1, matches1, rt1))) \<and>
        (result = RegExpRunStatus_Error \<and> \<not> interrupt env rt1 \<longrightarrow>
           execute env rt r input s (Some m) =
             Some (Returns (RegExpRunStatus_Error, r1, matches1, js_ReportOverRecursed env rt1))) \<and>
        (result = RegExpRunStatus_Error \<and> interrupt env rt1 \<and>
         InvokeInterruptCallback env rt1 = (False, rt2) \<longrightarrow>
           execute env rt r input s (Some m) =
             Some (Returns (RegExpRunStatus_Error, r1, matches1, rt2))) \<and>
        (result = RegExpRunStatus_Error \<and> interrupt env rt1 \<and>
         InvokeInterruptCallback env rt1 = (True, rt2) \<and> matches1 = Some m1' \<and>
         allocOrExpandArray (pairCount r1) m1' = Returns (True, m1') \<and>
         length (compilationArray r) = 4 \<longrightarrow>
           execute env rt r input s (Some m) = execute env rt2 r1 input s (Some m1'))"
    if h: "byteCode (compilation r1 Normal (hasLatin1Chars input)) = None \<and>
      ExecuteCode env rt code (dropChars (unat s) input) 0 (L - s) (Some m1) =
        ((result, matches1), rt1)"
  proof -
    note f = execute_native_first_run[OF assms(4,5) k(2) h[THEN conjunct1] w
               h[THEN conjunct2, unfolded code_def L_def], folded L_def]
    show ?thesis
      by (intro conjI impI) (simp_all add: f)
  qed
  have c: "(\<forall>m3 rt3.
           execute env rt r input s (Some m) =
             Some (Returns (RegExpRunStatus_Success, r1, Some m3, rt3)) \<longrightarrow>
           (\<exists>rt' mm m2.
              ExecuteCode env rt' code (dropChars (unat s) input) 0 (L - s) mm =
                ((RegExpRunStatus_Success, Some m2), rt3) \<and>
              pairsOf m3 = map (displacePair s) (pairsOf m2))) \<and>
        (\<forall>mo rt3.
           execute env rt r input s (Some m) =
             Some (Returns (RegExpRunStatus_Success_NotFound, r1, mo, rt3)) \<longrightarrow>
           (\<exists>rt' mm.
              ExecuteCode env rt' code (dropChars (unat s) input) 0 (L - s) mm =
                ((RegExpRunStatus_Success_NotFound, mo), rt3)))"
    if h: "byteCode (compilation r1 Normal (hasLatin1Chars input)) = None"
  proof (intro conjI allI impI)
    note p = execute_jit_Normal[OF assms(4,5) k(2) h w, folded code_def L_def]
    fix m3 rt3
    assume x: "execute env rt r input s (Some m) =
             Some (Returns (RegExpRunStatus_Success, r1, Some m3, rt3))"
    from x[unfolded p] obtain st mo rt1 where
      l: "execute_jit_loop env code (dropChars (unat s) input) 0 (L - s) (Some m1) rt =
            Some ((st, mo), rt1)"
      by (auto split: option.splits)
    from x[unfolded p l] have st: "st = RegExpRunStatus_Success"
      by (auto split: if_splits)
    with x[unfolded p l] have "map_outcome (\<lambda>matches3. (RegExpRunStatus_Success, r1, matches3, rt1))
             (displaceAndCheck s L mo) = Returns (RegExpRunStatus_Success, r1, Some m3, rt3)"
      by simp
    then have rt3: "rt3 = rt1" and d: "displaceAndCheck s L mo = Returns (Some m3)"
      by (cases "displaceAndCheck s L mo"; simp)+
    from d obtain m2 where mo: "mo = Some m2"
      by (cases mo) (simp_all add: displaceAndCheck_def)
    from jit_loop_provenance[OF l] st obtain rt' mm where
      "ExecuteCode env rt' code (dropChars (unat s) input) 0 (L - s) mm = ((st, mo), rt1)"
      by auto
    with st mo rt3 displaceAndCheck_pairs[OF d[unfolded mo]]
    show "\<exists>rt' mm m2.
              ExecuteCode env rt' code (dropChars (unat s) input) 0 (L - s) mm =
                ((RegExpRunStatus_Success, Some m2), rt3) \<and>
              pairsOf m3 = map (displacePair s) (pairsOf m2)"
      by blast
  next
    note p = execute_jit_Normal[OF assms(4,5) k(2) h w, folded code_def L_def]
    fix mo rt3
    assume x: "execute env rt r input s (Some m) =
             Some (Returns (RegExpRunStatus_Success_NotFound, r1, mo, rt3))"
    from x[unfolded p] obtain st mo' rt1 where
      l: "execute_jit_loop env code (dropChars (unat s) input) 0 (L - s) (Some m1) rt =
            Some ((st, mo'), rt1)"
      by (auto split: option.splits)
    have "st \<noteq> RegExpRunStatus_Success"
    proof
      assume "st = RegExpRunStatus_Success"
      with x[unfolded p l] have "map_outcome (\<lambda>matches3. (RegExpRunStatus_Success, r1, matches3, rt1))
             (displaceAndCheck s L mo') = Returns (RegExpRunStatus_Success_NotFound, r1, mo, rt3)"
        by simp
      then show False by (cases "displaceAndCheck s L mo'") simp_all
    qed
    with x[unfolded p l] have "st = RegExpRunStatus_Success_NotFound \<and> rt3 = rt1 \<and> mo' = mo"
      by simp
    with jit_loop_provenance[OF l]
    show "\<exists>rt' mm.
              ExecuteCode env rt' code (dropChars (unat s) input) 0 (L - s) mm =
                ((RegExpRunStatus_Success_NotFound, mo), rt3)"
      by auto
  qed
  have d: "\<forall>m2 m3. displaceAndCheck s L (Some m2) = Returns (Some m3) \<longrightarrow>
        pairsOf m3 = map (displacePair s) (pairsOf m2)"
    using displaceAndCheck_pairs by blast
  have e: "\<forall>p. (start p = -1 \<longrightarrow> start (displacePair s p) = -1) \<and>
          (limit p = -1 \<longrightarrow> limit (displacePair s p) = -1) \<and>
          (0 \<le> sint (start p) \<and> sint (start p) + int (unat s) < 2 ^ 31 \<longrightarrow>
             sint (start (displacePair s p)) = sint (start p) + int (unat s)) \<and>
          (0 \<le> sint (limit p) \<and> sint (limit p) + int (unat s) < 2 ^ 31 \<longrightarrow>
             sint (limit (displacePair s p)) = sint (limit p) + int (unat s))"
    using displacePair_start by blast
  note A = impI[OF a, folded L_def] and B = impI[OF b] and C = impI[OF c]
  show ?thesis
    unfolding L_def[symmetric] code_def[symmetric]
    by (intro conjI) (rule A B C d e | assumption)+
qed


lemma compile_stickyA:
  "compileIfNecessary anchoredA (ascii ''xxa'') Normal (RegExpShared (ascii ''a'') StickyFlag) =
     Returns (True, compiledStickyA)"
  by (simp add: compileIfNecessary_def isCompiled_def compilation_def compiled_def
        compile_def compile_pattern_def RegExpShared_def sticky_def ignoreCase_def
        StringHasRegExpMetaChars_def ascii_def IsRegExpMetaChar_def flag_defs anchoredA_def
        reserve_def append_sb_def infallibleAppend_def finishAtom_def AtomizeChars_def cstr_def
        empty_code_def Let_def compiledStickyA_def multiline_def)

lemma compile_stickyA_native:
  "compileIfNecessary anchoredA_native (ascii ''xxa'') Normal (RegExpShared (ascii ''a'') StickyFlag) =
     Returns (True, compiledStickyA_native)"
  by (simp add: compileIfNecessary_def isCompiled_def compilation_def compiled_def
        compile_def compile_pattern_def RegExpShared_def sticky_def ignoreCase_def
        StringHasRegExpMetaChars_def ascii_def IsRegExpMetaChar_def flag_defs anchoredA_native_def
        reserve_def append_sb_def infallibleAppend_def finishAtom_def AtomizeChars_def cstr_def
        empty_code_def Let_def compiledStickyA_native_def multiline_def)

lemma alloc_sampleBuffer:
  "allocOrExpandArray (pairCount compiledStickyA) sampleBuffer = Returns (True, sampleBuffer1)"
  "allocOrExpandArray (pairCount compiledStickyA_native) sampleBuffer = Returns (True, sampleBuffer1)"
  "allocOrExpandArray (pairCount compiledStickyA_native) sampleBuffer1 = Returns (True, sampleBuffer1)"
  by (simp_all add: allocOrExpandArray_def ScopedMatchPairs_allocOrExpandArray_def sampleBuffer_def
        sampleBuffer1_def ScopedMatchPairs_def alloc_def sizeof_MatchPair_def pairCount_def
        compiledStickyA_def compiledStickyA_native_def)

lemma stickyA_native_facts:
  "sticky compiledStickyA_native" "\<not> canStringMatch compiledStickyA_native"
  "byteCode (compilation compiledStickyA_native Normal (hasLatin1Chars (ascii ''xxa''))) = None"
  "jitCode (compilation compiledStickyA_native Normal (hasLatin1Chars (ascii ''xxa''))) = Some 1"
  "length (compilationArray (RegExpShared (ascii ''a'') StickyFlag)) = 4"
  by (simp_all add: compiledStickyA_native_def sticky_def flag_defs compilation_def ascii_def
        RegExpShared_def)

lemma sampleBuffer1_run:
  "fst (anchoredA_run () (dropChars (unat (2::size_t)) (ascii ''xxa'')) 0
          (of_nat (length_str (ascii ''xxa'')) - 2) (Some sampleBuffer1)) =
     (RegExpRunStatus_Success,
      Some (sampleBuffer1\<lparr>memory := (memory sampleBuffer1)(1024 := \<lparr>start = 0, limit = 1\<rparr>)\<rparr>))"
  "fst (anchoredA_run () (dropChars (unat (0::size_t)) (ascii ''xxa'')) 0
          (of_nat (length_str (ascii ''xxa'')) - 0) (Some sampleBuffer1)) =
     (RegExpRunStatus_Success_NotFound, Some sampleBuffer1)"
  by (simp_all add: anchoredA_run_def ascii_def writeFirstPair_def sampleBuffer1_def)

theorem execute_sticky_displacement_witness:
  "(\<exists>m3. execute anchoredA () (RegExpShared (ascii ''a'') StickyFlag) (ascii ''xxa'') 2
            (Some sampleBuffer) =
          Some (Returns (RegExpRunStatus_Success, compiledStickyA, Some m3, ())) \<and>
        pairsOf m3 = [\<lparr>start = 2, limit = 3\<rparr>]) \<and>
   execute anchoredA () (RegExpShared (ascii ''a'') StickyFlag) (ascii ''xxa'') 0
       (Some sampleBuffer) =
     Some (Returns (RegExpRunStatus_Success_NotFound, compiledStickyA, Some sampleBuffer1, ())) \<and>
   (\<exists>m3. execute anchoredA_native False (RegExpShared (ascii ''a'') StickyFlag) (ascii ''xxa'') 2
            (Some sampleBuffer) =
          Some (Returns (RegExpRunStatus_Success, compiledStickyA_native, Some m3, False)) \<and>
        pairsOf m3 = [\<lparr>start = 2, limit = 3\<rparr>]) \<and>
   execute anchoredA_native False (RegExpShared (ascii ''a'') StickyFlag) (ascii ''xxa'') 0
       (Some sampleBuffer) =
     Some (Returns (RegExpRunStatus_Success_NotFound, compiledStickyA_native, Some sampleBuffer1,
                    False)) \<and>
   (\<exists>m3. execute anchoredA_native True (RegExpShared (ascii ''a'') StickyFlag) (ascii ''xxa'') 2
            (Some sampleBuffer) =
          Some (Returns (RegExpRunStatus_Success, compiledStickyA_native, Some m3, False)) \<and>
        pairsOf m3 = [\<lparr>start = 2, limit = 3\<rparr>])"
proof -
  define r0 where "r0 = RegExpShared (ascii ''a'') StickyFlag"
  define L :: size_t where "L = of_nat (length_str (ascii ''xxa''))"
  have h: "sticky r0" "\<not> canStringMatch r0"
    by (simp_all add: r0_def RegExpShared_def sticky_def flag_defs)
  have bc: "byteCode (compilation compiledStickyA Normal (hasLatin1Chars (ascii ''xxa''))) = Some 1"
    "inputCharsInit anchoredA () (ascii ''xxa'')"
    by (simp_all add: compilation_def compiledStickyA_def ascii_def anchoredA_def)
  have len: "unat (2::size_t) \<le> length_str (ascii ''xxa'')" "unat (0::size_t) \<le> length_str (ascii ''xxa'')"
    by (simp_all add: ascii_def)
  define m2 where "m2 = sampleBuffer1\<lparr>memory := (memory sampleBuffer1)(1024 := \<lparr>start = 0, limit = 1\<rparr>)\<rparr>"
  have p2: "pairs' m2 \<noteq> None" "pairsOf m2 = [\<lparr>start = 0, limit = 1\<rparr>]"
    by (simp_all add: m2_def sampleBuffer1_def pairsOf_def)
  have "list_all (withinInput 1) (pairsOf m2)"
    by (simp add: p2 withinInput_def)
  from displaceAndCheck_within[OF p2(1) this, of 2 L]
  obtain m3 where m3: "displaceAndCheck 2 L (Some m2) = Returns (Some m3)"
    "pairsOf m3 = map (displacePair 2) (pairsOf m2)"
    by (auto simp: ascii_def L_def)
  have pm3: "pairsOf m3 = [\<lparr>start = 2, limit = 3\<rparr>]"
    unfolding m3(2) p2(2) by (simp add: displacePair_def word_sless_alt)

  note t = execute_sticky_displacement[OF h(1,2) _ compile_stickyA[folded r0_def] alloc_sampleBuffer(1),
             where rt = "()" and bc = 1, folded L_def]
  have run2: "InterpretCode anchoredA () 1 (dropChars (unat (2::size_t)) (ascii ''xxa'')) 0
                (L - 2) (Some sampleBuffer1) = ((RegExpRunStatus_Success, Some m2), ())"
    and run0: "InterpretCode anchoredA () 1 (dropChars (unat (0::size_t)) (ascii ''xxa'')) 0
                (L - 0) (Some sampleBuffer1) = ((RegExpRunStatus_Success_NotFound, Some sampleBuffer1), ())"
    using sampleBuffer1_run by (simp_all add: anchoredA_def m2_def L_def prod_eq_iff)
  have e2: "execute anchoredA () r0 (ascii ''xxa'') 2 (Some sampleBuffer) =
          Some (Returns (RegExpRunStatus_Success, compiledStickyA, Some m3, ()))"
    using t[OF len(1)] bc run2 m3(1) by simp
  have e0: "execute anchoredA () r0 (ascii ''xxa'') 0 (Some sampleBuffer) =
     Some (Returns (RegExpRunStatus_Success_NotFound, compiledStickyA, Some sampleBuffer1, ()))"
    using t[OF len(2)] bc run0 by simp

  note f = stickyA_native_facts
  have n2: "ExecuteCode anchoredA_native False (jitCode (compilation compiledStickyA_native Normal
                (hasLatin1Chars (ascii ''xxa'')))) (dropChars (unat (2::size_t)) (ascii ''xxa'')) 0
                (L - 2) (Some sampleBuffer1) = ((RegExpRunStatus_Success, Some m2), False)"
    and n0: "ExecuteCode anchoredA_native False (jitCode (compilation compiledStickyA_native Normal
                (hasLatin1Chars (ascii ''xxa'')))) (dropChars (unat (0::size_t)) (ascii ''xxa'')) 0
                (L - 0) (Some sampleBuffer1) = ((RegExpRunStatus_Success_NotFound, Some sampleBuffer1), False)"
    and ni: "ExecuteCode anchoredA_native True (jitCode (compilation compiledStickyA_native Normal
                (hasLatin1Chars (ascii ''xxa'')))) (dropChars (unat (2::size_t)) (ascii ''xxa'')) 0
                (L - 2) (Some sampleBuffer1) = ((RegExpRunStatus_Error, Some sampleBuffer1), True)"
    and cb: "interrupt anchoredA_native True" "InvokeInterruptCallback anchoredA_native True = (True, False)"
    using sampleBuffer1_run by (simp_all add: anchoredA_native_def m2_def L_def)
  note tn = execute_sticky_displacement[OF h(1,2) _ compile_stickyA_native[folded r0_def]
              alloc_sampleBuffer(2), folded L_def]
  have e2n: "execute anchoredA_native False r0 (ascii ''xxa'') 2 (Some sampleBuffer) =
          Some (Returns (RegExpRunStatus_Success, compiledStickyA_native, Some m3, False))"
    using tn[OF len(1), where rt = False and result = RegExpRunStatus_Success
               and ?matches1.0 = "Some m2" and ?rt1.0 = False] f(3) n2 m3(1)
    by simp
  have e0n: "execute anchoredA_native False r0 (ascii ''xxa'') 0 (Some sampleBuffer) =
     Some (Returns (RegExpRunStatus_Success_NotFound, compiledStickyA_native, Some sampleBuffer1, False))"
    using tn[OF len(2), where rt = False and result = RegExpRunStatus_Success_NotFound
               and ?matches1.0 = "Some sampleBuffer1" and ?rt1.0 = False] f(3) n0
    by simp
  have retry: "execute anchoredA_native True r0 (ascii ''xxa'') 2 (Some sampleBuffer) =
               execute anchoredA_native False compiledStickyA_native (ascii ''xxa'') 2 (Some sampleBuffer1)"
    using tn[OF len(1), where rt = True and result = RegExpRunStatus_Error
               and ?matches1.0 = "Some sampleBuffer1" and ?rt1.0 = True and ?rt2.0 = False
               and m1' = sampleBuffer1] f(3) ni cb alloc_sampleBuffer(3) f(5)
    by (simp add: r0_def)
  have again: "compileIfNecessary anchoredA_native (ascii ''xxa'') Normal compiledStickyA_native =
                 Returns (True, compiledStickyA_native)"
    by (rule compileIfNecessary_again[OF compile_stickyA_native f(5)])
  note tr = execute_sticky_displacement[OF f(1,2) len(1) again alloc_sampleBuffer(3), folded L_def]
  have e2r: "execute anchoredA_native False compiledStickyA_native (ascii ''xxa'') 2 (Some sampleBuffer1) =
          Some (Returns (RegExpRunStatus_Success, compiledStickyA_native, Some m3, False))"
    using tr[where rt = False and result = RegExpRunStatus_Success
               and ?matches1.0 = "Some m2" and ?rt1.0 = False] f(3) n2 m3(1)
    by simp
  from e2 e0 e2n e0n retry e2r pm3 show ?thesis unfolding r0_def by simp
qed

lemma unat_sub_no_wrap:
  fixes s :: size_t
  assumes "unat s \<le> n" "n < 2 ^ 64"
  shows "unat (of_nat n - s) = n - unat s"
proof -
  have n: "unat (of_nat n :: size_t) = n"
    using assms(2) by (simp add: unat_of_nat take_bit_nat_eq_self)
  have "s \<le> of_nat n" using assms(1) n by (simp add: word_le_nat_alt)
  then show ?thesis using n by (simp add: unat_sub)
qed

lemma unat_sub_wrap:
  fixes s :: size_t
  assumes "n < unat s"
  shows "unat (of_nat n - s) = 2 ^ 64 + n - unat s"
proof -
  have s: "unat s < 2 ^ 64" using unsigned_less[of s, where 'a = nat] by simp
  with assms have n64: "n < 2 ^ 64" by simp
  have n: "unat (of_nat n :: size_t) = n"
    using n64 by (simp add: unat_of_nat take_bit_nat_eq_self)
  have "unat (of_nat n - s) = (unat (of_nat n :: size_t) + 2 ^ 64 - unat s) mod 2 ^ 64"
    by (simp add: unat_sub_if' n) (use assms n in \<open>auto simp: word_less_nat_alt word_le_nat_alt\<close>)
  also have "\<dots> = 2 ^ 64 + n - unat s"
    using assms s n by simp
  finally show ?thesis .
qed
text \<open>
  Claim C10. For a sticky pattern \<open>execute\<close> takes \<open>length - start\<close> in \<open>size_t\<close> as the
  length to search and \<open>start\<close> as the offset into the characters, whatever \<open>start\<close> is, and
  hands both to the engine unchecked (shown here for a call without captures, on either
  engine). For \<open>start\<close> up to the input length the difference is the number of characters
  that follow; for a larger \<open>start\<close> it wraps around to \<open>2^64 + length - start\<close>.
\<close>

theorem execute_sticky_length:
  assumes "sticky r" "\<not> canStringMatch r"
    and "compileIfNecessary env input MatchOnly r = Returns (True, r1)"
  shows
    "stickyWindow (sticky r1) (of_nat (length_str input)) s =
       (s, of_nat (length_str input) - s, s, 0) \<and>
     (byteCode (compilation r1 MatchOnly (hasLatin1Chars input)) = Some bc \<and>
      inputCharsInit env rt input \<longrightarrow>
        execute env rt r input s None =
          (case InterpretCode env rt bc (dropChars (unat s) input) 0
                  (of_nat (length_str input) - s) None of
             ((result, matches1), rt1) \<Rightarrow> Some (Returns (result, r1, matches1, rt1)))) \<and>
     (byteCode (compilation r1 MatchOnly (hasLatin1Chars input)) = None \<longrightarrow>
        execute env rt r input s None =
          (case execute_jit_loop env (jitCode (compilation r1 MatchOnly (hasLatin1Chars input)))
                  (dropChars (unat s) input) 0 (of_nat (length_str input) - s) None rt of
             None \<Rightarrow> None
           | Some ((result, matches1), rt1) \<Rightarrow> Some (Returns (result, r1, matches1, rt1)))) \<and>
     (unat s \<le> length_str input \<and> length_str input < 2 ^ 64 \<longrightarrow>
        unat (of_nat (length_str input) - s) = length_str input - unat s) \<and>
     (length_str input < unat s \<longrightarrow>
        unat (of_nat (length_str input) - s) = 2 ^ 64 + length_str input - unat s)"
proof -
  from sticky_kept[OF assms(1,3)] assms(2) have k: "sticky r1" "\<not> canStringMatch r1" by simp_all
  have w: "stickyWindow (sticky r1) (of_nat (length_str input)) s =
             (s, of_nat (length_str input) - s, s, 0)"
    using k(1) by (simp add: stickyWindow_sticky)
  have a: "execute env rt r input s None =
          (case InterpretCode env rt bc (dropChars (unat s) input) 0
                  (of_nat (length_str input) - s) None of
             ((result, matches1), rt1) \<Rightarrow> Some (Returns (result, r1, matches1, rt1)))"
    if "byteCode (compilation r1 MatchOnly (hasLatin1Chars input)) = Some bc" "inputCharsInit env rt input"
    unfolding execute_byteCode_MatchOnly[OF assms(3) k(2) that(1) w] execute_byteCode_def
    using that(2)
    by (auto split: prod.splits)
  have b: "execute env rt r input s None =
          (case execute_jit_loop env (jitCode (compilation r1 MatchOnly (hasLatin1Chars input)))
                  (dropChars (unat s) input) 0 (of_nat (length_str input) - s) None rt of
             None \<Rightarrow> None
           | Some ((result, matches1), rt1) \<Rightarrow> Some (Returns (result, r1, matches1, rt1)))"
    if "byteCode (compilation r1 MatchOnly (hasLatin1Chars input)) = None"
    unfolding execute_jit_MatchOnly[OF assms(3) k(2) that w]
    by (auto split: option.splits prod.splits)
  show ?thesis
    using w a b unat_sub_no_wrap[of s "length_str input"] unat_sub_wrap[of "length_str input" s]
    by blast
qed

lemma compile_stickyA_MatchOnly:
  "compileIfNecessary anchoredA (ascii ''xxa'') MatchOnly (RegExpShared (ascii ''a'') StickyFlag) =
     Returns (True, compiledStickyA_MatchOnly)"
  by (simp add: compileIfNecessary_def isCompiled_def compilation_def compiled_def
        compile_def compile_pattern_def RegExpShared_def sticky_def ignoreCase_def
        StringHasRegExpMetaChars_def ascii_def IsRegExpMetaChar_def flag_defs anchoredA_def
        reserve_def append_sb_def infallibleAppend_def finishAtom_def AtomizeChars_def cstr_def
        empty_code_def Let_def compiledStickyA_MatchOnly_def multiline_def)

theorem execute_sticky_length_witness:
  "execute anchoredA () (RegExpShared (ascii ''a'') StickyFlag) (ascii ''xxa'') 2 None =
     Some (Returns (RegExpRunStatus_Success, compiledStickyA_MatchOnly, None, ())) \<and>
   unat (of_nat (length_str (ascii ''xxa'')) - 2 :: size_t) = 1 \<and>
   execute anchoredA () (RegExpShared (ascii ''a'') StickyFlag) (ascii ''xxa'') 4 None =
     Some (Returns (RegExpRunStatus_Success_NotFound, compiledStickyA_MatchOnly, None, ())) \<and>
   unat (of_nat (length_str (ascii ''xxa'')) - 4 :: size_t) = 2 ^ 64 - 1"
proof -
  define r0 where "r0 = RegExpShared (ascii ''a'') StickyFlag"
  have h: "sticky r0" "\<not> canStringMatch r0"
    by (simp_all add: r0_def RegExpShared_def sticky_def flag_defs)
  have bc: "byteCode (compilation compiledStickyA_MatchOnly MatchOnly (hasLatin1Chars (ascii ''xxa''))) = Some 1"
    "inputCharsInit anchoredA () (ascii ''xxa'')"
    by (simp_all add: compilation_def compiledStickyA_MatchOnly_def ascii_def anchoredA_def)
  note t = execute_sticky_length[OF h compile_stickyA_MatchOnly[folded r0_def],
             where rt = "()" and bc = 1]
  have l: "length_str (ascii ''xxa'') = 3" by (simp add: ascii_def)
  have e2: "execute anchoredA () r0 (ascii ''xxa'') 2 None =
     Some (Returns (RegExpRunStatus_Success, compiledStickyA_MatchOnly, None, ()))"
    using t[of 2] bc
    by (simp add: anchoredA_def anchoredA_run_def writeFirstPair_def) (simp add: ascii_def)
  have u2: "unat (of_nat (length_str (ascii ''xxa'')) - 2 :: size_t) = 1"
    using t[of 2] by (simp add: l)
  have e4: "execute anchoredA () r0 (ascii ''xxa'') 4 None =
     Some (Returns (RegExpRunStatus_Success_NotFound, compiledStickyA_MatchOnly, None, ()))"
    using t[of 4] bc
    by (simp add: anchoredA_def anchoredA_run_def writeFirstPair_def) (simp add: ascii_def)
  have u4: "unat (of_nat (length_str (ascii ''xxa'')) - 4 :: size_t) = 2 ^ 64 - 1"
    using t[of 4] by (simp add: l)
  from e2 u2 e4 u4 show ?thesis unfolding r0_def by blast
qed


lemma StringMatch_bound:
  "StringMatch hay pat = Some i \<Longrightarrow> i + length pat \<le> length hay"
proof (induction hay arbitrary: i)
  case Nil
  then show ?case by (auto split: if_splits)
next
  case (Cons c hay)
  show ?case
  proof (cases "take (length pat) (c # hay) = pat")
    case True
    have "length (take (length pat) (c # hay)) \<le> length (c # hay)" by simp
    with True have "length pat \<le> length (c # hay)" by simp
    with Cons.prems True show ?thesis by simp
  next
    case False
    with Cons.prems obtain j where "StringMatch hay pat = Some j" "i = Suc j"
      by auto
    with Cons.IH[of j] show ?thesis by simp
  qed
qed

lemma StringFindPattern_found:
  assumes "StringFindPattern text pat s \<noteq> -1" "length_str text < 2 ^ 31"
  shows "\<exists>k. StringFindPattern text pat s = of_nat k \<and> unat s \<le> k \<and>
             k + length_str pat \<le> length_str text"
proof -
  from assms(1) have le: "unat s \<le> length_str text"
    by (auto simp: StringFindPattern_def split: if_splits)
  with assms(1) obtain i where
    i: "StringMatch (drop (unat s) (twoByteContent text)) (twoByteContent pat) = Some i"
       "StringFindPattern text pat s = of_nat (unat s + i)"
    by (auto simp: StringFindPattern_def split: option.splits)
  from StringMatch_bound[OF i(1)] le
  have "unat s + i + length_str pat \<le> length_str text"
    by (simp add: length_twoByteContent)
  with i(2) show ?thesis by (intro exI[of _ "unat s + i"]) simp
qed

lemma literal_pair_within:
  assumes "k + n \<le> L" "L < 2 ^ 31"
  shows "withinInput L \<lparr>start = of_nat k, limit = of_nat k + of_nat n\<rparr>"
proof -
  have k: "k < 2 ^ 31" "k + n < 2 ^ 31" using assms by simp_all
  have "sint (of_nat k :: int32) = int k" using k(1) by (rule sint_of_nat_small)
  moreover have "sint (of_nat k + of_nat n :: int32) = int (k + n)"
    using sint_of_nat_small[OF k(2)] by simp
  ultimately show ?thesis using assms(1) by (simp add: withinInput_def)
qed

lemma execute_stringMatch_within:
  assumes "pairCount r1 = 1" "pairCount' m1 = 1" "pairs' m1 \<noteq> None"
    "length_str input < 2 ^ 31"
  shows "\<exists>st mm. execute_stringMatch r1 input s 0 (of_nat (length_str input)) (Some m1) =
                    Returns (st, Some mm) \<and>
           (st = RegExpRunStatus_Success \<or> st = RegExpRunStatus_Success_NotFound) \<and>
           (st = RegExpRunStatus_Success \<longrightarrow>
              list_all (withinInput (length_str input)) (pairsOf mm) \<and>
              checkAgainst (of_nat (length_str input)) mm)"
proof (cases "StringFindPattern input (source r1) s = -1")
  case True
  with assms(1) show ?thesis by (simp add: execute_stringMatch_def)
next
  case False
  from StringFindPattern_found[OF False assms(4)] obtain k where
    k: "StringFindPattern input (source r1) s = of_nat k"
       "k + length_str (source r1) \<le> length_str input" by blast
  from assms(3) obtain p where p: "pairs' m1 = Some p" by auto
  define m' where "m' = m1\<lparr>memory := (memory m1)(p := \<lparr>start = of_nat k,
                          limit = of_nat k + of_nat (length_str (source r1))\<rparr>)\<rparr>"
  have po: "pairsOf m' = [\<lparr>start = of_nat k, limit = of_nat k + of_nat (length_str (source r1))\<rparr>]"
    using p assms(2) by (simp add: pairsOf_def m'_def)
  have L: "unat (of_nat (length_str input) :: size_t) = length_str input"
    using assms(4) by (simp add: unat_of_nat take_bit_nat_eq_self)
  have w: "list_all (withinInput (length_str input)) (pairsOf m')"
    unfolding po using literal_pair_within[OF k(2) assms(4)] by simp
  then have c: "checkAgainst (of_nat (length_str input)) m'"
    by (simp add: checkAgainst_iff L)
  have "execute_stringMatch r1 input s 0 (of_nat (length_str input)) (Some m1) =
          Returns (RegExpRunStatus_Success, Some m')"
    using False assms(1,2) p c k(1)
    by (simp add: execute_stringMatch_def Let_def m'_def)
  with w c show ?thesis by blast
qed

lemma window_sum:
  assumes "stickyWindow st (of_nat n) s = (charsOffset, len, disp, s1)" "unat s \<le> n" "n < 2 ^ 31"
  shows "unat len + unat disp \<le> unat (of_nat n :: size_t) \<and> unat (of_nat n :: size_t) = n"
proof -
  have n64: "n < 2 ^ 64" using assms(3) by (rule less_trans) simp
  have n: "unat (of_nat n :: size_t) = n"
    using n64 by (simp add: unat_of_nat take_bit_nat_eq_self)
  show ?thesis
  proof (cases st)
    case True
    with assms(1) have "len = of_nat n - s" "disp = s" by (auto simp add: stickyWindow_def)
    with unat_sub_no_wrap[OF assms(2) n64] assms(2) n show ?thesis by simp
  next
    case False
    with assms(1) have "len = of_nat n" "disp = 0" by (auto simp add: stickyWindow_def)
    with n show ?thesis by simp
  qed
qed

text \<open>
  Claim C9. Take a call with a capture buffer, a start offset within the input and an input
  short enough for its length to fit the \<open>int\<close> of an offset. On the literal path the call
  returns normally, and a match it reports has its pair within the input. On the engine
  paths the bounds check is a check of the engine: the engine's side of the contract is
  that a run on a buffer whose storage is in place leaves the storage in place and the pair
  count as it is, and on a match has written only pairs that are \<open>(-1, -1)\<close> or ranges
  within the length it was given. When a run of the interpreter, or the first run of the
  native code, reports a match and has kept to that, the displaced pairs are the engine's
  pairs moved by the displacement, every offset is \<open>-1\<close> or within the original input, and
  \<open>checkAgainst\<close> holds: the call returns Success. And when the native code keeps to the
  contract on every run, then however often it is interrupted and run again, a call that
  returns has returned normally, no assertion has failed, and if it reports a match every
  offset is \<open>-1\<close> or within the original input.
\<close>

theorem execute_offsets_within_input:
  assumes "unat s \<le> length_str input" "length_str input < 2 ^ 31"
    and "compileIfNecessary env input Normal r = Returns (True, r1)"
    and "allocOrExpandArray (pairCount r1) m = Returns (True, m1)"
    and "stickyWindow (sticky r1) (of_nat (length_str input)) s = (charsOffset, len, disp, s1)"
  shows
    "(canStringMatch r1 \<and> literalInvariant r1 \<longrightarrow>
        (\<exists>st mm. execute env rt r input s (Some m) = Some (Returns (st, r1, Some mm, rt)) \<and>
           (st = RegExpRunStatus_Success \<or> st = RegExpRunStatus_Success_NotFound) \<and>
           (st = RegExpRunStatus_Success \<longrightarrow>
              list_all (withinInput (length_str input)) (pairsOf mm) \<and>
              checkAgainst (of_nat (length_str input)) mm))) \<and>
     (\<not> canStringMatch r1 \<and>
      byteCode (compilation r1 Normal (hasLatin1Chars input)) = Some bc \<and>
      inputCharsInit env rt input \<and>
      InterpretCode env rt bc (dropChars (unat charsOffset) input) s1 len (Some m1) =
        ((RegExpRunStatus_Success, Some m2), rt1) \<and>
      pairs' m2 \<noteq> None \<and> list_all (withinInput (unat len)) (pairsOf m2) \<longrightarrow>
        (\<exists>m3. execute env rt r input s (Some m) =
                 Some (Returns (RegExpRunStatus_Success, r1, Some m3, rt1)) \<and>
              pairsOf m3 = map (displacePair disp) (pairsOf m2) \<and>
              list_all (withinInput (length_str input)) (pairsOf m3) \<and>
              checkAgainst (of_nat (length_str input)) m3)) \<and>
     (\<not> canStringMatch r1 \<and>
      byteCode (compilation r1 Normal (hasLatin1Chars input)) = None \<and>
      ExecuteCode env rt (jitCode (compilation r1 Normal (hasLatin1Chars input)))
        (dropChars (unat charsOffset) input) s1 len (Some m1) =
        ((RegExpRunStatus_Success, Some m2), rt1) \<and>
      pairs' m2 \<noteq> None \<and> list_all (withinInput (unat len)) (pairsOf m2) \<longrightarrow>
        (\<exists>m3. execute env rt r input s (Some m) =
                 Some (Returns (RegExpRunStatus_Success, r1, Some m3, rt1)) \<and>
              pairsOf m3 = map (displacePair disp) (pairsOf m2) \<and>
              list_all (withinInput (length_str input)) (pairsOf m3) \<and>
              checkAgainst (of_nat (length_str input)) m3)) \<and>
     (\<not> canStringMatch r1 \<and>
      byteCode (compilation r1 Normal (hasLatin1Chars input)) = None \<and>
      (\<forall>rt' mm st mm' rt''.
         pairs' mm \<noteq> None \<and> pairCount' mm = pairCount r1 \<and>
         ExecuteCode env rt' (jitCode (compilation r1 Normal (hasLatin1Chars input)))
           (dropChars (unat charsOffset) input) s1 len (Some mm) = ((st, mm'), rt'') \<longrightarrow>
         (\<exists>m''. mm' = Some m'' \<and> pairs' m'' \<noteq> None \<and> pairCount' m'' = pairCount r1 \<and>
               (st = RegExpRunStatus_Success \<longrightarrow>
                  list_all (withinInput (unat len)) (pairsOf m'')))) \<longrightarrow>
        (\<forall>out. execute env rt r input s (Some m) = Some out \<longrightarrow>
           (\<exists>st m3 rt3. out = Returns (st, r1, Some m3, rt3) \<and>
              (st = RegExpRunStatus_Success \<longrightarrow>
                 list_all (withinInput (length_str input)) (pairsOf m3) \<and>
                 checkAgainst (of_nat (length_str input)) m3))))"
proof (intro conjI impI)
  assume a: "canStringMatch r1 \<and> literalInvariant r1"
  then have ns: "\<not> sticky r1" and pc: "pairCount r1 = 1"
    by (auto simp: literalInvariant_def literalEligible_def pairCount_def)
  from assms(5) ns have w: "stickyWindow (sticky r1) (of_nat (length_str input)) s = (0, len, disp, s)"
    "s1 = s" "charsOffset = 0"
    by (simp_all add: stickyWindow_def)
  from alloc_success[OF assms(4)] pc have b: "pairs' m1 \<noteq> None" "pairCount' m1 = 1" by simp_all
  from execute_stringMatch_within[OF pc b(2) b(1) assms(2), of s] obtain st mm where
    x: "execute_stringMatch r1 input s 0 (of_nat (length_str input)) (Some m1) = Returns (st, Some mm)"
       "st = RegExpRunStatus_Success \<or> st = RegExpRunStatus_Success_NotFound"
       "st = RegExpRunStatus_Success \<longrightarrow>
              list_all (withinInput (length_str input)) (pairsOf mm) \<and>
              checkAgainst (of_nat (length_str input)) mm"
    by blast
  have "execute env rt r input s (Some m) = Some (Returns (st, r1, Some mm, rt))"
    using a execute_literal_Normal[OF assms(3,4) _ w(1), where rt = rt] x(1) by simp
  with x(2,3) show "\<exists>st mm. execute env rt r input s (Some m) = Some (Returns (st, r1, Some mm, rt)) \<and>
           (st = RegExpRunStatus_Success \<or> st = RegExpRunStatus_Success_NotFound) \<and>
           (st = RegExpRunStatus_Success \<longrightarrow>
              list_all (withinInput (length_str input)) (pairsOf mm) \<and>
              checkAgainst (of_nat (length_str input)) mm)"
    by blast
next
  assume a: "\<not> canStringMatch r1 \<and>
      byteCode (compilation r1 Normal (hasLatin1Chars input)) = Some bc \<and>
      inputCharsInit env rt input \<and>
      InterpretCode env rt bc (dropChars (unat charsOffset) input) s1 len (Some m1) =
        ((RegExpRunStatus_Success, Some m2), rt1) \<and>
      pairs' m2 \<noteq> None \<and> list_all (withinInput (unat len)) (pairsOf m2)"
  from window_sum[OF assms(5,1,2)] have
    ws: "unat len + unat disp \<le> unat (of_nat (length_str input) :: size_t)"
        "unat (of_nat (length_str input) :: size_t) = length_str input" by simp_all
  from ws(2) assms(2) have lt: "unat (of_nat (length_str input) :: size_t) < 2 ^ 31" by simp
  from a displaceAndCheck_within[OF _ _ ws(1) lt, of m2] obtain m3 where
    m3: "displaceAndCheck disp (of_nat (length_str input)) (Some m2) = Returns (Some m3)"
        "pairsOf m3 = map (displacePair disp) (pairsOf m2)"
        "list_all (withinInput (unat (of_nat (length_str input) :: size_t))) (pairsOf m3)"
    by blast
  have "execute env rt r input s (Some m) = Some (Returns (RegExpRunStatus_Success, r1, Some m3, rt1))"
    using a m3(1)
    by (simp add: execute_byteCode_Normal[OF assms(3,4) _ _ assms(5)] execute_byteCode_def)
  with m3 ws(2) show "\<exists>m3. execute env rt r input s (Some m) =
                 Some (Returns (RegExpRunStatus_Success, r1, Some m3, rt1)) \<and>
              pairsOf m3 = map (displacePair disp) (pairsOf m2) \<and>
              list_all (withinInput (length_str input)) (pairsOf m3) \<and>
              checkAgainst (of_nat (length_str input)) m3"
    by (auto simp: checkAgainst_iff)
next
  assume a: "\<not> canStringMatch r1 \<and>
      byteCode (compilation r1 Normal (hasLatin1Chars input)) = None \<and>
      ExecuteCode env rt (jitCode (compilation r1 Normal (hasLatin1Chars input)))
        (dropChars (unat charsOffset) input) s1 len (Some m1) =
        ((RegExpRunStatus_Success, Some m2), rt1) \<and>
      pairs' m2 \<noteq> None \<and> list_all (withinInput (unat len)) (pairsOf m2)"
  from window_sum[OF assms(5,1,2)] have
    ws: "unat len + unat disp \<le> unat (of_nat (length_str input) :: size_t)"
        "unat (of_nat (length_str input) :: size_t) = length_str input" by simp_all
  from ws(2) assms(2) have lt: "unat (of_nat (length_str input) :: size_t) < 2 ^ 31" by simp
  from a displaceAndCheck_within[OF _ _ ws(1) lt, of m2] obtain m3 where
    m3: "displaceAndCheck disp (of_nat (length_str input)) (Some m2) = Returns (Some m3)"
        "pairsOf m3 = map (displacePair disp) (pairsOf m2)"
        "list_all (withinInput (unat (of_nat (length_str input) :: size_t))) (pairsOf m3)"
    by blast
  from a have n: "\<not> canStringMatch r1"
    and b: "byteCode (compilation r1 Normal (hasLatin1Chars input)) = None"
    and e: "ExecuteCode env rt (jitCode (compilation r1 Normal (hasLatin1Chars input)))
        (dropChars (unat charsOffset) input) s1 len (Some m1) =
        ((RegExpRunStatus_Success, Some m2), rt1)" by simp_all
  have "execute env rt r input s (Some m) = Some (Returns (RegExpRunStatus_Success, r1, Some m3, rt1))"
    using execute_native_first_run(1)[OF assms(3,4) n b assms(5) e] m3(1) by simp
  with m3 ws(2) show "\<exists>m3. execute env rt r input s (Some m) =
                 Some (Returns (RegExpRunStatus_Success, r1, Some m3, rt1)) \<and>
              pairsOf m3 = map (displacePair disp) (pairsOf m2) \<and>
              list_all (withinInput (length_str input)) (pairsOf m3) \<and>
              checkAgainst (of_nat (length_str input)) m3"
    by (auto simp: checkAgainst_iff)
next
  define code where "code = jitCode (compilation r1 Normal (hasLatin1Chars input))"
  define chars where "chars = dropChars (unat charsOffset) input"
  define L :: size_t where "L = of_nat (length_str input)"
  assume a: "\<not> canStringMatch r1 \<and>
      byteCode (compilation r1 Normal (hasLatin1Chars input)) = None \<and>
      (\<forall>rt' mm st mm' rt''.
         pairs' mm \<noteq> None \<and> pairCount' mm = pairCount r1 \<and>
         ExecuteCode env rt' (jitCode (compilation r1 Normal (hasLatin1Chars input)))
           (dropChars (unat charsOffset) input) s1 len (Some mm) = ((st, mm'), rt'') \<longrightarrow>
         (\<exists>m''. mm' = Some m'' \<and> pairs' m'' \<noteq> None \<and> pairCount' m'' = pairCount r1 \<and>
               (st = RegExpRunStatus_Success \<longrightarrow>
                  list_all (withinInput (unat len)) (pairsOf m''))))"
  then have n: "\<not> canStringMatch r1"
    and b: "byteCode (compilation r1 Normal (hasLatin1Chars input)) = None"
    and contract: "\<forall>rt' mm st mm' rt''.
         pairs' mm \<noteq> None \<and> pairCount' mm = pairCount r1 \<and>
         ExecuteCode env rt' code chars s1 len (Some mm) = ((st, mm'), rt'') \<longrightarrow>
         (\<exists>m''. mm' = Some m'' \<and> pairs' m'' \<noteq> None \<and> pairCount' m'' = pairCount r1 \<and>
               (st = RegExpRunStatus_Success \<longrightarrow>
                  list_all (withinInput (unat len)) (pairsOf m'')))"
    unfolding code_def chars_def by blast+
  from window_sum[OF assms(5,1,2)] have
    ws: "unat len + unat disp \<le> unat L" "unat L = length_str input"
    unfolding L_def by simp_all
  from ws(2) assms(2) have lt: "unat L < 2 ^ 31" by simp
  have pc: "0 < pairCount r1" by (simp add: pairCount_def)
  from alloc_success[OF assms(4) pc] have
    sh: "\<exists>mm. Some m1 = Some mm \<and> pairs' mm \<noteq> None \<and> pairCount' mm = pairCount r1"
    by simp
  note p = execute_jit_Normal[OF assms(3,4) n b assms(5), folded code_def chars_def L_def]
  show "\<forall>out. execute env rt r input s (Some m) = Some out \<longrightarrow>
           (\<exists>st m3 rt3. out = Returns (st, r1, Some m3, rt3) \<and>
              (st = RegExpRunStatus_Success \<longrightarrow>
                 list_all (withinInput (length_str input)) (pairsOf m3) \<and>
                 checkAgainst (of_nat (length_str input)) m3))"
  proof (intro allI impI)
    fix out
    assume x: "execute env rt r input s (Some m) = Some out"
    from x[unfolded p] obtain lo where
      l: "execute_jit_loop env code chars s1 len (Some m1) rt = Some lo"
      by (auto split: option.splits)
    from jit_loop_contract[OF l, THEN mp, OF contract, THEN mp, OF sh] obtain st m2 rt1 where
      lo: "lo = ((st, Some m2), rt1)" and s2: "pairs' m2 \<noteq> None"
      and w2: "st = RegExpRunStatus_Success \<longrightarrow> list_all (withinInput (unat len)) (pairsOf m2)"
      by blast
    show "\<exists>st m3 rt3. out = Returns (st, r1, Some m3, rt3) \<and>
              (st = RegExpRunStatus_Success \<longrightarrow>
                 list_all (withinInput (length_str input)) (pairsOf m3) \<and>
                 checkAgainst (of_nat (length_str input)) m3)"
    proof (cases "st = RegExpRunStatus_Success")
      case False
      with x[unfolded p l lo] have "out = Returns (st, r1, Some m2, rt1)" by simp
      with False show ?thesis by blast
    next
      case True
      with w2 have "list_all (withinInput (unat len)) (pairsOf m2)" by simp
      from displaceAndCheck_within[OF s2 this ws(1) lt] obtain m3 where
        m3: "displaceAndCheck disp L (Some m2) = Returns (Some m3)"
            "list_all (withinInput (unat L)) (pairsOf m3)"
        by blast
      from x[unfolded p l lo] True m3(1)
      have "out = Returns (RegExpRunStatus_Success, r1, Some m3, rt1)" by simp
      moreover have "checkAgainst L m3" using m3(2) by (simp add: checkAgainst_iff)
      ultimately show ?thesis using m3(2) True ws(2) unfolding L_def by auto
    qed
  qed
qed

lemma anchoredA_native_contract:
  "\<forall>rt' mm st mm' rt''.
     pairs' mm \<noteq> None \<and> pairCount' mm = pairCount compiledStickyA_native \<and>
     ExecuteCode anchoredA_native rt'
       (jitCode (compilation compiledStickyA_native Normal (hasLatin1Chars (ascii ''xxa''))))
       (dropChars (unat (2::size_t)) (ascii ''xxa'')) 0 1 (Some mm) = ((st, mm'), rt'') \<longrightarrow>
     (\<exists>m''. mm' = Some m'' \<and> pairs' m'' \<noteq> None \<and>
           pairCount' m'' = pairCount compiledStickyA_native \<and>
           (st = RegExpRunStatus_Success \<longrightarrow> list_all (withinInput (unat (1::size_t))) (pairsOf m'')))"
proof (intro allI impI)
  fix rt' :: bool and mm st mm' and rt'' :: bool
  assume a: "pairs' mm \<noteq> None \<and> pairCount' mm = pairCount compiledStickyA_native \<and>
     ExecuteCode anchoredA_native rt'
       (jitCode (compilation compiledStickyA_native Normal (hasLatin1Chars (ascii ''xxa''))))
       (dropChars (unat (2::size_t)) (ascii ''xxa'')) 0 1 (Some mm) = ((st, mm'), rt'')"
  then obtain p where p: "pairs' mm = Some p" and c: "pairCount' mm = 1"
    by (auto simp: pairCount_def compiledStickyA_native_def)
  have pc: "pairCount compiledStickyA_native = 1"
    by (simp add: pairCount_def compiledStickyA_native_def)
  show "\<exists>m''. mm' = Some m'' \<and> pairs' m'' \<noteq> None \<and>
           pairCount' m'' = pairCount compiledStickyA_native \<and>
           (st = RegExpRunStatus_Success \<longrightarrow> list_all (withinInput (unat (1::size_t))) (pairsOf m''))"
  proof (cases rt')
    case True
    with a have "mm' = Some mm" "st = RegExpRunStatus_Error"
      by (simp_all add: anchoredA_native_def)
    with p c pc show ?thesis by simp
  next
    case False
    with a p have "mm' = Some (mm\<lparr>memory := (memory mm)(p := \<lparr>start = 0, limit = 1\<rparr>)\<rparr>)"
      by (auto simp: anchoredA_native_def anchoredA_run_def ascii_def writeFirstPair_def)
    moreover have "pairsOf (mm\<lparr>memory := (memory mm)(p := \<lparr>start = 0, limit = 1\<rparr>)\<rparr>) =
                     [\<lparr>start = 0, limit = 1\<rparr>]"
      using p c by (simp add: pairsOf_def)
    ultimately show ?thesis using p c pc by (simp add: withinInput_def)
  qed
qed

theorem execute_offsets_within_input_witness:
  "(\<exists>m3. execute anchoredA () (RegExpShared (ascii ''a'') StickyFlag) (ascii ''xxa'') 2
            (Some sampleBuffer) =
          Some (Returns (RegExpRunStatus_Success, compiledStickyA, Some m3, ())) \<and>
        list_all (withinInput 3) (pairsOf m3) \<and> checkAgainst 3 m3) \<and>
   (\<exists>m3. execute anchoredA_native True (RegExpShared (ascii ''a'') StickyFlag) (ascii ''xxa'') 2
            (Some sampleBuffer) =
          Some (Returns (RegExpRunStatus_Success, compiledStickyA_native, Some m3, False)) \<and>
        list_all (withinInput 3) (pairsOf m3) \<and> checkAgainst 3 m3) \<and>
   unat (2 :: size_t) \<le> length_str (ascii ''xxa'') \<and> length_str (ascii ''xxa'') < 2 ^ 31"
proof -
  define r0 where "r0 = RegExpShared (ascii ''a'') StickyFlag"
  have l: "length_str (ascii ''xxa'') = 3" by (simp add: ascii_def)
  have len: "unat (2::size_t) \<le> length_str (ascii ''xxa'')" "length_str (ascii ''xxa'') < 2 ^ 31"
    by (simp_all add: l)
  have w: "stickyWindow (sticky compiledStickyA) (of_nat (length_str (ascii ''xxa''))) 2 = (2, 1, 2, 0)"
    "stickyWindow (sticky compiledStickyA_native) (of_nat (length_str (ascii ''xxa''))) 2 = (2, 1, 2, 0)"
    by (simp_all add: stickyWindow_def compiledStickyA_def compiledStickyA_native_def sticky_def
          flag_defs l)
  define m2 where "m2 = sampleBuffer1\<lparr>memory := (memory sampleBuffer1)(1024 := \<lparr>start = 0, limit = 1\<rparr>)\<rparr>"
  have run2: "InterpretCode anchoredA () 1 (dropChars (unat (2::size_t)) (ascii ''xxa'')) 0 1
                (Some sampleBuffer1) = ((RegExpRunStatus_Success, Some m2), ())"
    by (simp add: anchoredA_def anchoredA_run_def ascii_def writeFirstPair_def sampleBuffer1_def m2_def)
  have p2: "pairs' m2 \<noteq> None" "pairsOf m2 = [\<lparr>start = 0, limit = 1\<rparr>]"
    by (simp_all add: m2_def sampleBuffer1_def pairsOf_def)
  have c: "list_all (withinInput (unat (1::size_t))) (pairsOf m2)"
    by (simp add: p2 withinInput_def)
  have pre: "\<not> canStringMatch compiledStickyA"
    "byteCode (compilation compiledStickyA Normal (hasLatin1Chars (ascii ''xxa''))) = Some 1"
    "inputCharsInit anchoredA () (ascii ''xxa'')"
    by (simp_all add: compilation_def compiledStickyA_def ascii_def anchoredA_def)
  note t = execute_offsets_within_input[OF len compile_stickyA[folded r0_def] alloc_sampleBuffer(1) w(1),
             where rt = "()" and bc = 1 and ?m2.0 = m2 and ?rt1.0 = "()"]
  from t pre run2 p2(1) c obtain m3 where
    b: "execute anchoredA () r0 (ascii ''xxa'') 2 (Some sampleBuffer) =
          Some (Returns (RegExpRunStatus_Success, compiledStickyA, Some m3, ()))"
    "list_all (withinInput (length_str (ascii ''xxa''))) (pairsOf m3)"
    "checkAgainst (of_nat (length_str (ascii ''xxa''))) m3"
    by blast

  note f = stickyA_native_facts
  have ni: "ExecuteCode anchoredA_native True (jitCode (compilation compiledStickyA_native Normal
                (hasLatin1Chars (ascii ''xxa'')))) (dropChars (unat (2::size_t)) (ascii ''xxa'')) 0
                1 (Some sampleBuffer1) = ((RegExpRunStatus_Error, Some sampleBuffer1), True)"
    and n2: "ExecuteCode anchoredA_native False (jitCode (compilation compiledStickyA_native Normal
                (hasLatin1Chars (ascii ''xxa'')))) (dropChars (unat (2::size_t)) (ascii ''xxa'')) 0
                1 (Some sampleBuffer1) = ((RegExpRunStatus_Success, Some m2), False)"
    and cb: "interrupt anchoredA_native True" "InvokeInterruptCallback anchoredA_native True = (True, False)"
    using sampleBuffer1_run(1) by (simp_all add: anchoredA_native_def m2_def l)
  have again: "compileIfNecessary anchoredA_native (ascii ''xxa'') Normal compiledStickyA_native =
                 Returns (True, compiledStickyA_native)"
    by (rule compileIfNecessary_again[OF compile_stickyA_native f(5)])
  have retry: "execute anchoredA_native True r0 (ascii ''xxa'') 2 (Some sampleBuffer) =
               execute anchoredA_native False compiledStickyA_native (ascii ''xxa'') 2 (Some sampleBuffer1)"
    unfolding r0_def
    by (rule execute_native_first_run(5)[OF compile_stickyA_native alloc_sampleBuffer(2) f(2,3) w(2)
               ni refl cb refl alloc_sampleBuffer(3) f(5)])
  have ws: "(1::nat) + unat (2::size_t) \<le> unat (of_nat (length_str (ascii ''xxa'')) :: size_t)"
    "unat (of_nat (length_str (ascii ''xxa'')) :: size_t) < 2 ^ 31"
    by (simp_all add: l)
  have "list_all (withinInput 1) (pairsOf m2)" using c by simp
  from displaceAndCheck_within[OF p2(1) this ws] obtain m3n where
    d: "displaceAndCheck 2 (of_nat (length_str (ascii ''xxa''))) (Some m2) = Returns (Some m3n)"
    by blast
  have clean: "execute anchoredA_native False compiledStickyA_native (ascii ''xxa'') 2 (Some sampleBuffer1) =
                 Some (Returns (RegExpRunStatus_Success, compiledStickyA_native, Some m3n, False))"
    using execute_native_first_run(1)[OF again alloc_sampleBuffer(3) f(2,3) w(2) n2 refl] d
    by simp
  note tn = execute_offsets_within_input[OF len compile_stickyA_native[folded r0_def]
              alloc_sampleBuffer(2) w(2), where rt = True]
  note g = tn[THEN conjunct2, THEN conjunct2, THEN conjunct2, THEN mp,
              OF conjI[OF f(2) conjI[OF f(3) anchoredA_native_contract]], THEN spec, THEN mp,
              OF trans[OF retry clean]]
  from g
  have "\<exists>st m3 rt3.
          Returns (RegExpRunStatus_Success, compiledStickyA_native, Some m3n, False) =
            Returns (st, compiledStickyA_native, Some m3, rt3) \<and>
          (st = RegExpRunStatus_Success \<longrightarrow>
             list_all (withinInput (length_str (ascii ''xxa''))) (pairsOf m3) \<and>
             checkAgainst (of_nat (length_str (ascii ''xxa''))) m3)"
    .
  then have n: "list_all (withinInput (length_str (ascii ''xxa''))) (pairsOf m3n)"
    "checkAgainst (of_nat (length_str (ascii ''xxa''))) m3n"
    by auto
  from b n retry clean len show ?thesis unfolding r0_def by (auto simp: l)
qed

text \<open>
  Claim C4, as the code has it. The loop around the native code runs the engine; when the
  engine reports an error and the runtime's interrupt flag is up, the interrupt callback is
  polled: if it permits continuation the whole match is attempted again, in the state the
  callback has left, and if it asks for termination the loop ends with Error; when the flag
  is down the error is an internal one, reported as over-recursion, and the loop ends with
  Error at once. Hence on the native path a call to \<open>execute\<close> that is interrupted and allowed
  to continue equals the call started afresh afterwards. On the bytecode path \<open>execute\<close> hands
  back whatever the interpreter reports: an Error is the result at once, without looking at
  the interrupt flag, polling the callback or running the interpreter again.
\<close>

theorem execute_interrupt_retry:
  assumes "compileIfNecessary env input MatchOnly r = Returns (True, r1)"
    and "length (compilationArray r) = 4" "\<not> canStringMatch r1"
    and "stickyWindow (sticky r1) (of_nat (length_str input)) s = (charsOffset, len, disp, s1)"
  shows
    "(\<forall>code chars mm mm1.
        ExecuteCode env rt code chars s1 len mm = ((RegExpRunStatus_Error, mm1), rt1) \<longrightarrow>
          (interrupt env rt1 \<and> InvokeInterruptCallback env rt1 = (True, rt2) \<longrightarrow>
             execute_jit_loop env code chars s1 len mm rt =
               execute_jit_loop env code chars s1 len mm1 rt2) \<and>
          (interrupt env rt1 \<and> InvokeInterruptCallback env rt1 = (False, rt2) \<longrightarrow>
             execute_jit_loop env code chars s1 len mm rt =
               Some ((RegExpRunStatus_Error, mm1), rt2)) \<and>
          (\<not> interrupt env rt1 \<longrightarrow>
             execute_jit_loop env code chars s1 len mm rt =
               Some ((RegExpRunStatus_Error, mm1), js_ReportOverRecursed env rt1))) \<and>
     (byteCode (compilation r1 MatchOnly (hasLatin1Chars input)) = None \<and>
      ExecuteCode env rt (jitCode (compilation r1 MatchOnly (hasLatin1Chars input)))
        (dropChars (unat charsOffset) input) s1 len None = ((RegExpRunStatus_Error, None), rt1) \<longrightarrow>
          (interrupt env rt1 \<and> InvokeInterruptCallback env rt1 = (True, rt2) \<longrightarrow>
             execute env rt r input s None = execute env rt2 r1 input s None) \<and>
          (interrupt env rt1 \<and> InvokeInterruptCallback env rt1 = (False, rt2) \<longrightarrow>
             execute env rt r input s None =
               Some (Returns (RegExpRunStatus_Error, r1, None, rt2))) \<and>
          (\<not> interrupt env rt1 \<longrightarrow>
             execute env rt r input s None =
               Some (Returns (RegExpRunStatus_Error, r1, None, js_ReportOverRecursed env rt1)))) \<and>
     (byteCode (compilation r1 MatchOnly (hasLatin1Chars input)) = Some bc \<and>
      inputCharsInit env rt input \<and>
      InterpretCode env rt bc (dropChars (unat charsOffset) input) s1 len None =
        ((RegExpRunStatus_Error, mm2), rt1) \<longrightarrow>
          execute env rt r input s None = Some (Returns (RegExpRunStatus_Error, r1, mm2, rt1)))"
proof (intro conjI allI impI)
  fix code chars mm mm1
  assume e: "ExecuteCode env rt code chars s1 len mm = ((RegExpRunStatus_Error, mm1), rt1)"
  { assume "interrupt env rt1 \<and> InvokeInterruptCallback env rt1 = (True, rt2)"
    with e show "execute_jit_loop env code chars s1 len mm rt =
               execute_jit_loop env code chars s1 len mm1 rt2"
      by (simp add: jit_loop_retry) }
  { assume "interrupt env rt1 \<and> InvokeInterruptCallback env rt1 = (False, rt2)"
    with e show "execute_jit_loop env code chars s1 len mm rt =
               Some ((RegExpRunStatus_Error, mm1), rt2)"
      by (simp add: jit_loop_terminate) }
  { assume "\<not> interrupt env rt1"
    with e show "execute_jit_loop env code chars s1 len mm rt =
               Some ((RegExpRunStatus_Error, mm1), js_ReportOverRecursed env rt1)"
      by (simp add: jit_loop_internal_error) }
next
  assume a: "byteCode (compilation r1 MatchOnly (hasLatin1Chars input)) = None \<and>
      ExecuteCode env rt (jitCode (compilation r1 MatchOnly (hasLatin1Chars input)))
        (dropChars (unat charsOffset) input) s1 len None = ((RegExpRunStatus_Error, None), rt1)"
  note p = execute_jit_MatchOnly[OF assms(1,3) _ assms(4)]
  note again = compileIfNecessary_again[OF assms(1,2)]
  note p' = execute_jit_MatchOnly[OF again assms(3) _ assms(4)]
  { assume "interrupt env rt1 \<and> InvokeInterruptCallback env rt1 = (True, rt2)"
    with a show "execute env rt r input s None = execute env rt2 r1 input s None"
      by (simp add: p p' jit_loop_retry) }
  { assume "interrupt env rt1 \<and> InvokeInterruptCallback env rt1 = (False, rt2)"
    with a show "execute env rt r input s None =
               Some (Returns (RegExpRunStatus_Error, r1, None, rt2))"
      by (simp add: p jit_loop_terminate) }
  { assume "\<not> interrupt env rt1"
    with a show "execute env rt r input s None =
               Some (Returns (RegExpRunStatus_Error, r1, None, js_ReportOverRecursed env rt1))"
      by (simp add: p jit_loop_internal_error) }
next
  assume a: "byteCode (compilation r1 MatchOnly (hasLatin1Chars input)) = Some bc \<and>
      inputCharsInit env rt input \<and>
      InterpretCode env rt bc (dropChars (unat charsOffset) input) s1 len None =
        ((RegExpRunStatus_Error, mm2), rt1)"
  then show "execute env rt r input s None = Some (Returns (RegExpRunStatus_Error, r1, mm2, rt1))"
    by (simp add: execute_byteCode_MatchOnly[OF assms(1,3) _ assms(4)] execute_byteCode_def)
qed

lemma compile_APlus:
  "compileIfNecessary (scripted b) (ascii ''xxa'') MatchOnly (RegExpShared (ascii ''a+'') 0) =
     Returns (True, compiledAPlus b)"
  by (simp add: compileIfNecessary_def isCompiled_def compilation_def compiled_def
        compile_def compile_pattern_def RegExpShared_def sticky_def ignoreCase_def
        StringHasRegExpMetaChars_def ascii_def IsRegExpMetaChar_def flag_defs scripted_def
        empty_code_def Let_def compiledAPlus_def multiline_def)

lemma APlus_facts:
  "length (compilationArray (RegExpShared (ascii ''a+'') 0)) = 4"
  "\<not> canStringMatch (compiledAPlus b)"
  "stickyWindow (sticky (compiledAPlus b)) (of_nat (length_str (ascii ''xxa''))) 0 = (0, 3, 0, 0)"
  "byteCode (compilation (compiledAPlus False) MatchOnly (hasLatin1Chars (ascii ''xxa''))) = None"
  "jitCode (compilation (compiledAPlus False) MatchOnly (hasLatin1Chars (ascii ''xxa''))) = Some 1"
  "byteCode (compilation (compiledAPlus True) MatchOnly (hasLatin1Chars (ascii ''xxa''))) = Some 1"
  by (simp_all add: RegExpShared_def compiledAPlus_def stickyWindow_def sticky_def flag_defs
        ascii_def compilation_def)

theorem execute_interrupt_retry_witness:
  "execute (scripted False)
      (scriptedStart [(RegExpRunStatus_Error, True), (RegExpRunStatus_Success, False)] True)
      (RegExpShared (ascii ''a+'') 0) (ascii ''xxa'') 0 None =
     Some (Returns (RegExpRunStatus_Success, compiledAPlus False, None,
            \<lparr>script = [], interrupted = False, callbackAnswer = True, engineRuns = 2,
             callbackPolls = 1, overRecursed = False\<rparr>)) \<and>
   execute (scripted False)
      (scriptedStart [(RegExpRunStatus_Error, True), (RegExpRunStatus_Success, False)] False)
      (RegExpShared (ascii ''a+'') 0) (ascii ''xxa'') 0 None =
     Some (Returns (RegExpRunStatus_Error, compiledAPlus False, None,
            \<lparr>script = [(RegExpRunStatus_Success, False)], interrupted = False,
             callbackAnswer = False, engineRuns = 1, callbackPolls = 1, overRecursed = False\<rparr>)) \<and>
   execute (scripted False)
      (scriptedStart [(RegExpRunStatus_Error, False), (RegExpRunStatus_Success, False)] True)
      (RegExpShared (ascii ''a+'') 0) (ascii ''xxa'') 0 None =
     Some (Returns (RegExpRunStatus_Error, compiledAPlus False, None,
            \<lparr>script = [(RegExpRunStatus_Success, False)], interrupted = False,
             callbackAnswer = True, engineRuns = 1, callbackPolls = 0, overRecursed = True\<rparr>))"
proof -
  define env where "env = scripted False"
  define r0 where "r0 = RegExpShared (ascii ''a+'') 0"
  define r1 where "r1 = compiledAPlus False"
  note t = execute_interrupt_retry[OF compile_APlus[of False] APlus_facts(1,2,3)]
  define rtA where "rtA = scriptedStart [(RegExpRunStatus_Error, True), (RegExpRunStatus_Success, False)] True"
  define rtA1 where "rtA1 = \<lparr>script = [(RegExpRunStatus_Success, False)], interrupted = True,
             callbackAnswer = True, engineRuns = 1, callbackPolls = 0, overRecursed = False\<rparr>"
  define rtA2 where "rtA2 = \<lparr>script = [(RegExpRunStatus_Success, False)], interrupted = False,
             callbackAnswer = True, engineRuns = 1, callbackPolls = 1, overRecursed = False\<rparr>"
  have A1: "ExecuteCode (scripted False) rtA (Some 1) (dropChars (unat (0::size_t)) (ascii ''xxa'')) 0 3 None =
              ((RegExpRunStatus_Error, None), rtA1)"
    by (simp add: scripted_def scripted_run_def rtA_def rtA1_def scriptedStart_def)
  have A2: "interrupt (scripted False) rtA1" "InvokeInterruptCallback (scripted False) rtA1 = (True, rtA2)"
    by (simp_all add: scripted_def rtA1_def rtA2_def)
  have A3: "ExecuteCode (scripted False) rtA2 (Some 1) (dropChars (unat (0::size_t)) (ascii ''xxa'')) 0 3 None =
              ((RegExpRunStatus_Success, None),
               \<lparr>script = [], interrupted = False, callbackAnswer = True, engineRuns = 2,
                callbackPolls = 1, overRecursed = False\<rparr>)"
    by (simp add: scripted_def scripted_run_def rtA2_def)
  have again: "compileIfNecessary (scripted False) (ascii ''xxa'') MatchOnly (compiledAPlus False) =
                 Returns (True, compiledAPlus False)"
    by (rule compileIfNecessary_again[OF compile_APlus APlus_facts(1)])
  have second: "execute (scripted False) rtA2 (compiledAPlus False) (ascii ''xxa'') 0 None =
     Some (Returns (RegExpRunStatus_Success, compiledAPlus False, None,
            \<lparr>script = [], interrupted = False, callbackAnswer = True, engineRuns = 2,
             callbackPolls = 1, overRecursed = False\<rparr>))"
    using jit_loop_clean[OF A3]
    by (simp add: execute_jit_MatchOnly[OF again APlus_facts(2,4,3)] APlus_facts(5))
  have first: "execute (scripted False) rtA (RegExpShared (ascii ''a+'') 0) (ascii ''xxa'') 0 None =
               execute (scripted False) rtA2 (compiledAPlus False) (ascii ''xxa'') 0 None"
    using t[where rt = rtA and ?rt1.0 = rtA1 and ?rt2.0 = rtA2] A1 A2 APlus_facts(4,5)
    by simp
  define rtB where "rtB = scriptedStart [(RegExpRunStatus_Error, True), (RegExpRunStatus_Success, False)] False"
  define rtB1 where "rtB1 = \<lparr>script = [(RegExpRunStatus_Success, False)], interrupted = True,
             callbackAnswer = False, engineRuns = 1, callbackPolls = 0, overRecursed = False\<rparr>"
  define rtB2 where "rtB2 = \<lparr>script = [(RegExpRunStatus_Success, False)], interrupted = False,
             callbackAnswer = False, engineRuns = 1, callbackPolls = 1, overRecursed = False\<rparr>"
  have B1: "ExecuteCode (scripted False) rtB (Some 1) (dropChars (unat (0::size_t)) (ascii ''xxa'')) 0 3 None =
              ((RegExpRunStatus_Error, None), rtB1)"
    by (simp add: scripted_def scripted_run_def rtB_def rtB1_def scriptedStart_def)
  have B2: "interrupt (scripted False) rtB1" "InvokeInterruptCallback (scripted False) rtB1 = (False, rtB2)"
    by (simp_all add: scripted_def rtB1_def rtB2_def)
  have stop: "execute (scripted False) rtB (RegExpShared (ascii ''a+'') 0) (ascii ''xxa'') 0 None =
               Some (Returns (RegExpRunStatus_Error, compiledAPlus False, None, rtB2))"
    using t[where rt = rtB and ?rt1.0 = rtB1 and ?rt2.0 = rtB2] B1 B2 APlus_facts(4,5)
    by simp
  define rtC where "rtC = scriptedStart [(RegExpRunStatus_Error, False), (RegExpRunStatus_Success, False)] True"
  define rtC1 where "rtC1 = \<lparr>script = [(RegExpRunStatus_Success, False)], interrupted = False,
             callbackAnswer = True, engineRuns = 1, callbackPolls = 0, overRecursed = False\<rparr>"
  have C1: "ExecuteCode (scripted False) rtC (Some 1) (dropChars (unat (0::size_t)) (ascii ''xxa'')) 0 3 None =
              ((RegExpRunStatus_Error, None), rtC1)"
    by (simp add: scripted_def scripted_run_def rtC_def rtC1_def scriptedStart_def)
  have C2: "\<not> interrupt (scripted False) rtC1"
    "js_ReportOverRecursed (scripted False) rtC1 = rtC1\<lparr>overRecursed := True\<rparr>"
    by (simp_all add: scripted_def rtC1_def)
  have internal: "execute (scripted False) rtC (RegExpShared (ascii ''a+'') 0) (ascii ''xxa'') 0 None =
               Some (Returns (RegExpRunStatus_Error, compiledAPlus False, None, rtC1\<lparr>overRecursed := True\<rparr>))"
    using t[where rt = rtC and ?rt1.0 = rtC1] C1 C2 APlus_facts(4,5)
    by simp
  show ?thesis
    using first second stop internal
    unfolding rtA_def rtB_def rtC_def rtB2_def rtC1_def by simp
qed

text \<open>
  The claim as stated extends the retry to the bytecode interpreter. With bytecode, an
  interpreter run that fails while the interrupt flag is up, and a callback that would
  permit continuation, \<open>execute\<close> returns Error after that one run: the callback is not
  polled and the second run, which would have matched, does not take place.
\<close>

theorem execute_byteCode_no_retry_counterexample:
  "execute (scripted True)
      (scriptedStart [(RegExpRunStatus_Error, True), (RegExpRunStatus_Success, False)] True)
      (RegExpShared (ascii ''a+'') 0) (ascii ''xxa'') 0 None =
     Some (Returns (RegExpRunStatus_Error, compiledAPlus True, None,
            \<lparr>script = [(RegExpRunStatus_Success, False)], interrupted = True,
             callbackAnswer = True, engineRuns = 1, callbackPolls = 0, overRecursed = False\<rparr>))"
  unfolding execute_byteCode_MatchOnly[OF compile_APlus[of True] APlus_facts(2,6,3)]
  by (simp add: execute_byteCode_def scripted_def scripted_run_def scriptedStart_def)


lemma unat_twoByteContent: "map unat (twoByteContent src) = charCodes src"
proof (cases src)
  case (Latin1Str cs)
  have "unat (ucast c :: char16_t) = unat c" for c :: Latin1Char
  proof -
    have "unat c < 2 ^ 8" using unsigned_less[of c, where 'a = nat] by simp
    then have "unat c < 2 ^ 16" by simp
    then show ?thesis by (simp add: unsigned_ucast_eq take_bit_nat_eq_self)
  qed
  with Latin1Str show ?thesis by simp
next
  case (TwoByteStr cs)
  then show ?thesis by simp
qed

text \<open>
  Claim C3, as the code has it. \<open>compile\<close> leaves source and flags alone and sets
  \<open>canStringMatch\<close> exactly on a record that is eligible: not sticky, not ignoring case,
  and with a source free of metacharacters. What is tested for metacharacters, and what the
  parser is given, is the source for a pattern that is not sticky and the text
  \<open>^(?:source)\<close> for one that is; that text always holds metacharacters, so a sticky
  pattern always goes to the parser (unless the buffer for the text cannot be had) and the
  metacharacters of the source alone do not decide. On an eligible record \<open>compile\<close>
  succeeds without calling the parser, sets the capture count to 0 and writes no code slot;
  a record fresh from its constructor that has become string-matchable therefore has no
  compiled slot at all, and never becomes string-matchable when ignore-case is set. The
  invariant that ties \<open>canStringMatch\<close> to eligibility holds of a fresh record and is kept by
  \<open>compileIfNecessary\<close>. Executing a string-matchable record is a substring search for the
  source from the start offset, and the engines are not run: without a capture buffer the
  status tells whether the source was found; with one, a match is reported with the one
  pair that runs from the index found to that index plus the length of the source, and
  that pair passes the bounds check whenever the input length fits an offset.
\<close>

theorem compile_canStringMatch:
  "(compile env input mode r = Returns (ok, r1) \<longrightarrow>
      source r1 = source r \<and> flags r1 = flags r \<and>
      canStringMatch r1 = (canStringMatch r \<or> literalEligible r) \<and>
      (literalEligible r \<longrightarrow> ok \<and> parenCount r1 = 0 \<and> compilationArray r1 = compilationArray r)) \<and>
   (compile env input mode (RegExpShared src fl) = Returns (ok, r2) \<longrightarrow>
      canStringMatch r2 =
        (\<not> sticky (RegExpShared src fl) \<and> \<not> ignoreCase (RegExpShared src fl) \<and>
         \<not> StringHasRegExpMetaChars src) \<and>
      (canStringMatch r2 \<longrightarrow>
         ok \<and> parenCount r2 = 0 \<and> (\<forall>md l1. \<not> isCompiled r2 md l1)) \<and>
      (ignoreCase (RegExpShared src fl) \<longrightarrow> \<not> canStringMatch r2)) \<and>
   literalInvariant (RegExpShared src fl) \<and>
   (literalInvariant r \<and> compileIfNecessary env input mode r = Returns (ok, r1) \<longrightarrow>
      literalInvariant r1) \<and>
   (literalInvariant r \<and> canStringMatch r \<longrightarrow>
      execute env rt r input s None =
        Some (Returns (if StringFindPattern input (source r) s = -1
                       then RegExpRunStatus_Success_NotFound else RegExpRunStatus_Success,
                       r, None, rt))) \<and>
   (literalInvariant r \<and> canStringMatch r \<and>
    allocOrExpandArray (pairCount r) m = Returns (True, m1) \<longrightarrow>
      (\<exists>p. pairs' m1 = Some p \<and> pairCount' m1 = 1 \<and>
         (let res = StringFindPattern input (source r) s;
              m2 = m1\<lparr>memory := (memory m1)
                         (p := \<lparr>start = res, limit = res + of_nat (length_str (source r))\<rparr>)\<rparr>
          in execute env rt r input s (Some m) =
               (if res = -1 then Some (Returns (RegExpRunStatus_Success_NotFound, r, Some m1, rt))
                else if checkAgainst (of_nat (length_str input)) m2
                     then Some (Returns (RegExpRunStatus_Success, r, Some m2, rt))
                     else Some AssertionFailure) \<and>
             pairsOf m2 = [\<lparr>start = res, limit = res + of_nat (length_str (source r))\<rparr>] \<and>
             (res \<noteq> -1 \<and> length_str input < 2 ^ 31 \<longrightarrow>
                checkAgainst (of_nat (length_str input)) m2)))) \<and>
   (\<not> sticky r \<longrightarrow>
      compile env input mode r =
        (if \<not> ignoreCase r \<and> \<not> StringHasRegExpMetaChars (source r)
         then Returns (True, r\<lparr>canStringMatch := True, parenCount := 0\<rparr>)
         else (case ParsePattern env (source r) (multiline r) (mode = MatchOnly) of
              None \<Rightarrow> Returns (False, r)
            | Some data \<Rightarrow>
                (let r1 = r\<lparr>parenCount := capture_count data\<rparr>;
                     code = CompilePattern env data input (ignoreCase r1)
                              (hasLatin1Chars input) (mode = MatchOnly)
                 in if empty_code code then Returns (False, r1)
                    else if \<not> (jitCode code = None \<or> byteCode code = None) then AssertionFailure
                    else Returns (True,
                           r1\<lparr>compilationArray :=
                                (compilationArray r1)
                                  [CompilationIndex mode (hasLatin1Chars input) :=
                                     \<lparr>jitCode = jitCode code, byteCode = byteCode code\<rparr>]\<rparr>))))) \<and>
   (sticky r \<longrightarrow>
      compile env input mode r =
        (if bufferRoom env < length_str (source r) + 5 then Returns (False, r)
         else (case ParsePattern env (AtomizeChars (cstr ''^(?:'' @ twoByteContent (source r) @ cstr '')'')) (multiline r) (mode = MatchOnly) of
              None \<Rightarrow> Returns (False, r)
            | Some data \<Rightarrow>
                (let r1 = r\<lparr>parenCount := capture_count data\<rparr>;
                     code = CompilePattern env data input (ignoreCase r1)
                              (hasLatin1Chars input) (mode = MatchOnly)
                 in if empty_code code then Returns (False, r1)
                    else if \<not> (jitCode code = None \<or> byteCode code = None) then AssertionFailure
                    else Returns (True,
                           r1\<lparr>compilationArray :=
                                (compilationArray r1)
                                  [CompilationIndex mode (hasLatin1Chars input) :=
                                     \<lparr>jitCode = jitCode code, byteCode = byteCode code\<rparr>]\<rparr>))))) \<and>
   (charCodes (AtomizeChars (cstr ''^(?:'' @ twoByteContent src @ cstr '')'')) =
      [94, 40, 63, 58] @ charCodes src @ [41] \<and>
    StringHasRegExpMetaChars (AtomizeChars (cstr ''^(?:'' @ twoByteContent src @ cstr '')'')))"
proof (intro conjI impI)
  assume a: "compile env input mode r = Returns (ok, r1)"
  from compile_facts[OF a]
  show "source r1 = source r" "flags r1 = flags r"
    "canStringMatch r1 = (canStringMatch r \<or> literalEligible r)"
    by simp_all
  assume "literalEligible r"
  with compile_facts[OF a]
  show "ok" "parenCount r1 = 0" "compilationArray r1 = compilationArray r" by simp_all
next
  assume a: "compile env input mode (RegExpShared src fl) = Returns (ok, r2)"
  note f = compile_facts[OF a]
  have s: "source (RegExpShared src fl) = src" "\<not> canStringMatch (RegExpShared src fl)"
    "list_all (\<lambda>c. \<not> compiled c) (compilationArray (RegExpShared src fl))"
    "length (compilationArray (RegExpShared src fl)) = 4"
    by (simp_all add: RegExpShared_def compiled_def)
  from f s show c: "canStringMatch r2 =
        (\<not> sticky (RegExpShared src fl) \<and> \<not> ignoreCase (RegExpShared src fl) \<and>
         \<not> StringHasRegExpMetaChars src)"
    by (simp add: literalEligible_def)
  from c show "\<not> canStringMatch r2" if "ignoreCase (RegExpShared src fl)"
    using that by simp
  assume m: "canStringMatch r2"
  with f s have e: "literalEligible (RegExpShared src fl)" by simp
  with f show "ok" "parenCount r2 = 0" by simp_all
  from e f s have "list_all (\<lambda>c. \<not> compiled c) (compilationArray r2)"
    "length (compilationArray r2) = 4" by simp_all
  then show "\<forall>md l1. \<not> isCompiled r2 md l1"
    using CompilationIndex_less by (simp add: isCompiled_def compilation_def list_all_length)
next
  show "literalInvariant (RegExpShared src fl)" by (rule literalInvariant_new)
next
  assume "literalInvariant r \<and> compileIfNecessary env input mode r = Returns (ok, r1)"
  then show "literalInvariant r1" using literalInvariant_compileIfNecessary by blast
next
  assume "literalInvariant r \<and> canStringMatch r"
  then have "canStringMatch r" "\<not> sticky r" "parenCount r = 0"
    by (auto simp: literalInvariant_def literalEligible_def)
  then show "execute env rt r input s None =
        Some (Returns (if StringFindPattern input (source r) s = -1
                       then RegExpRunStatus_Success_NotFound else RegExpRunStatus_Success,
                       r, None, rt))"
    by (rule execute_literal_matchOnly)
next
  assume a: "literalInvariant r \<and> canStringMatch r \<and>
    allocOrExpandArray (pairCount r) m = Returns (True, m1)"
  then have ns: "\<not> sticky r" and pc: "pairCount r = 1" and cm: "canStringMatch r"
    and al: "allocOrExpandArray (pairCount r) m = Returns (True, m1)"
    by (auto simp: literalInvariant_def literalEligible_def pairCount_def)
  have ci: "compileIfNecessary env input Normal r = Returns (True, r)"
    using cm by (rule compileIfNecessary_literal)
  have w: "stickyWindow (sticky r) (of_nat (length_str input)) s = (0, of_nat (length_str input), 0, s)"
    using ns by (simp add: stickyWindow_def)
  from alloc_success[OF al] pc obtain p where p: "pairs' m1 = Some p" and c1: "pairCount' m1 = 1"
    by auto
  define res where "res = StringFindPattern input (source r) s"
  define m2 where "m2 = m1\<lparr>memory := (memory m1)
                         (p := \<lparr>start = res, limit = res + of_nat (length_str (source r))\<rparr>)\<rparr>"
  have x: "execute env rt r input s (Some m) =
               (if res = -1 then Some (Returns (RegExpRunStatus_Success_NotFound, r, Some m1, rt))
                else if checkAgainst (of_nat (length_str input)) m2
                     then Some (Returns (RegExpRunStatus_Success, r, Some m2, rt))
                     else Some AssertionFailure)"
    unfolding execute_literal_Normal[OF ci al cm w]
    using pc p c1 by (simp add: execute_stringMatch_def Let_def res_def m2_def)
  have po: "pairsOf m2 = [\<lparr>start = res, limit = res + of_nat (length_str (source r))\<rparr>]"
    using p c1 by (simp add: pairsOf_def m2_def)
  have ck: "res \<noteq> -1 \<and> length_str input < 2 ^ 31 \<longrightarrow> checkAgainst (of_nat (length_str input)) m2"
  proof
    assume that: "res \<noteq> -1 \<and> length_str input < 2 ^ 31"
    from that have f: "StringFindPattern input (source r) s \<noteq> -1" and lt: "length_str input < 2 ^ 31"
      by (simp_all add: res_def)
    from StringFindPattern_found[OF f lt] obtain k where
      k: "res = of_nat k" "k + length_str (source r) \<le> length_str input"
      unfolding res_def by blast
    have L: "unat (of_nat (length_str input) :: size_t) = length_str input"
      using lt by (simp add: unat_of_nat take_bit_nat_eq_self)
    from literal_pair_within[OF k(2) lt] show "checkAgainst (of_nat (length_str input)) m2"
      by (simp add: checkAgainst_iff L po k(1))
  qed
  have g: "pairs' m1 = Some p \<and> pairCount' m1 = 1 \<and>
         (execute env rt r input s (Some m) =
               (if res = -1 then Some (Returns (RegExpRunStatus_Success_NotFound, r, Some m1, rt))
                else if checkAgainst (of_nat (length_str input)) m2
                     then Some (Returns (RegExpRunStatus_Success, r, Some m2, rt))
                     else Some AssertionFailure) \<and>
             pairsOf m2 = [\<lparr>start = res, limit = res + of_nat (length_str (source r))\<rparr>] \<and>
             (res \<noteq> -1 \<and> length_str input < 2 ^ 31 \<longrightarrow>
                checkAgainst (of_nat (length_str input)) m2))"
    by (intro conjI) (rule p c1 x po ck)+
  show "\<exists>p. pairs' m1 = Some p \<and> pairCount' m1 = 1 \<and>
         (let res = StringFindPattern input (source r) s;
              m2 = m1\<lparr>memory := (memory m1)
                         (p := \<lparr>start = res, limit = res + of_nat (length_str (source r))\<rparr>)\<rparr>
          in execute env rt r input s (Some m) =
               (if res = -1 then Some (Returns (RegExpRunStatus_Success_NotFound, r, Some m1, rt))
                else if checkAgainst (of_nat (length_str input)) m2
                     then Some (Returns (RegExpRunStatus_Success, r, Some m2, rt))
                     else Some AssertionFailure) \<and>
             pairsOf m2 = [\<lparr>start = res, limit = res + of_nat (length_str (source r))\<rparr>] \<and>
             (res \<noteq> -1 \<and> length_str input < 2 ^ 31 \<longrightarrow>
                checkAgainst (of_nat (length_str input)) m2))"
    unfolding Let_def by (rule exI[of _ p], fold res_def, fold m2_def, rule g)
next
  assume "\<not> sticky r"
  then show "compile env input mode r =
        (if \<not> ignoreCase r \<and> \<not> StringHasRegExpMetaChars (source r)
         then Returns (True, r\<lparr>canStringMatch := True, parenCount := 0\<rparr>)
         else (case ParsePattern env (source r) (multiline r) (mode = MatchOnly) of
              None \<Rightarrow> Returns (False, r)
            | Some data \<Rightarrow>
                (let r1 = r\<lparr>parenCount := capture_count data\<rparr>;
                     code = CompilePattern env data input (ignoreCase r1)
                              (hasLatin1Chars input) (mode = MatchOnly)
                 in if empty_code code then Returns (False, r1)
                    else if \<not> (jitCode code = None \<or> byteCode code = None) then AssertionFailure
                    else Returns (True,
                           r1\<lparr>compilationArray :=
                                (compilationArray r1)
                                  [CompilationIndex mode (hasLatin1Chars input) :=
                                     \<lparr>jitCode = jitCode code, byteCode = byteCode code\<rparr>]\<rparr>))))"
    by (simp add: compile_def compile_pattern_def)
next
  assume st: "sticky r"
  show "compile env input mode r =
        (if bufferRoom env < length_str (source r) + 5 then Returns (False, r)
         else (case ParsePattern env (AtomizeChars (cstr ''^(?:'' @ twoByteContent (source r) @ cstr '')'')) (multiline r) (mode = MatchOnly) of
              None \<Rightarrow> Returns (False, r)
            | Some data \<Rightarrow>
                (let r1 = r\<lparr>parenCount := capture_count data\<rparr>;
                     code = CompilePattern env data input (ignoreCase r1)
                              (hasLatin1Chars input) (mode = MatchOnly)
                 in if empty_code code then Returns (False, r1)
                    else if \<not> (jitCode code = None \<or> byteCode code = None) then AssertionFailure
                    else Returns (True,
                           r1\<lparr>compilationArray :=
                                (compilationArray r1)
                                  [CompilationIndex mode (hasLatin1Chars input) :=
                                     \<lparr>jitCode = jitCode code, byteCode = byteCode code\<rparr>]\<rparr>))))"
  proof (cases "bufferRoom env < length_str (source r) + 5")
    case True
    with st show ?thesis
      by (simp add: compile_def reserve_def cstr_def Let_def)
  next
    case False
    with st have "compile env input mode r =
        compile_pattern env (AtomizeChars (cstr ''^(?:'' @ twoByteContent (source r) @ cstr '')''))
          input mode r"
      by (simp add: compile_def reserve_def append_sb_def infallibleAppend_def finishAtom_def
            cstr_def Let_def length_twoByteContent)
    with False show ?thesis
      using wrapped_has_meta[of "twoByteContent (source r)"]
      by (simp add: compile_pattern_def)
  qed
next
  show "charCodes (AtomizeChars (cstr ''^(?:'' @ twoByteContent src @ cstr '')'')) =
      [94, 40, 63, 58] @ charCodes src @ [41]"
    by (simp add: charCodes_AtomizeChars unat_twoByteContent cstr_def)
next
  show "StringHasRegExpMetaChars (AtomizeChars (cstr ''^(?:'' @ twoByteContent src @ cstr '')''))"
    by (rule wrapped_has_meta)
qed

theorem compile_canStringMatch_witness:
  "compile anchoredA (ascii ''xxabcxx'') Normal (RegExpShared (ascii ''abc'') 0) =
     Returns (True, (RegExpShared (ascii ''abc'') 0)\<lparr>canStringMatch := True\<rparr>) \<and>
   literalEligible (RegExpShared (ascii ''abc'') 0) \<and>
   literalInvariant ((RegExpShared (ascii ''abc'') 0)\<lparr>canStringMatch := True\<rparr>) \<and>
   execute anchoredA () ((RegExpShared (ascii ''abc'') 0)\<lparr>canStringMatch := True\<rparr>)
       (ascii ''xxabcxx'') 0 None =
     Some (Returns (RegExpRunStatus_Success,
                    (RegExpShared (ascii ''abc'') 0)\<lparr>canStringMatch := True\<rparr>, None, ())) \<and>
   StringFindPattern (ascii ''xxabcxx'') (ascii ''abc'') 0 = 2 \<and>
   (\<exists>m2. execute anchoredA () ((RegExpShared (ascii ''abc'') 0)\<lparr>canStringMatch := True\<rparr>)
            (ascii ''xxabcxx'') 0 (Some sampleBuffer) =
          Some (Returns (RegExpRunStatus_Success,
                         (RegExpShared (ascii ''abc'') 0)\<lparr>canStringMatch := True\<rparr>, Some m2, ())) \<and>
        pairsOf m2 = [\<lparr>start = 2, limit = 5\<rparr>]) \<and>
   compile anchoredA (ascii ''xxa'') Normal (RegExpShared (ascii ''a'') StickyFlag) =
     (case ParsePattern anchoredA (ascii ''^(?:a)'') False False of
        None \<Rightarrow> Returns (False, RegExpShared (ascii ''a'') StickyFlag)
      | Some data \<Rightarrow> Returns (True, compiledStickyA))"
proof -
  define r0 where "r0 = RegExpShared (ascii ''abc'') 0"
  define r1 where "r1 = r0\<lparr>canStringMatch := True\<rparr>"
  define rs where "rs = RegExpShared (ascii ''a'') StickyFlag"
  have e: "literalEligible r0"
    by (simp add: r0_def literalEligible_def RegExpShared_def sticky_def ignoreCase_def
          StringHasRegExpMetaChars_def ascii_def IsRegExpMetaChar_def flag_defs)
  have c: "compile anchoredA (ascii ''xxabcxx'') Normal r0 = Returns (True, r1)"
    using e by (simp add: compile_def compile_pattern_def literalEligible_def r1_def r0_def RegExpShared_def)
  have f: "StringFindPattern (ascii ''xxabcxx'') (ascii ''abc'') 0 = 2"
    by (simp add: StringFindPattern_def ascii_def)
  note t = compile_canStringMatch[where env = anchoredA and input = "ascii ''xxabcxx''" and mode = Normal
             and src = "ascii ''abc''" and fl = 0 and rt = "()" and s = 0]
  have i0: "literalInvariant r0" using t by (simp add: r0_def)
  have ci: "compileIfNecessary anchoredA (ascii ''xxabcxx'') Normal r0 = Returns (True, r1)"
    using c by (simp add: compileIfNecessary_def r0_def RegExpShared_def isCompiled_def
                  compilation_def compiled_def)
  from t[where r = r0 and ok = True and ?r1.0 = r1] i0 ci have i1: "literalInvariant r1" by blast
  have m: "canStringMatch r1" by (simp add: r1_def)
  from t[where r = r1] i1 m f
  have x: "execute anchoredA () r1 (ascii ''xxabcxx'') 0 None =
     Some (Returns (RegExpRunStatus_Success, r1, None, ()))"
    by (simp add: r1_def r0_def RegExpShared_def)
  have al: "allocOrExpandArray (pairCount r1) sampleBuffer = Returns (True, sampleBuffer1)"
    by (simp add: allocOrExpandArray_def ScopedMatchPairs_allocOrExpandArray_def sampleBuffer_def
        sampleBuffer1_def ScopedMatchPairs_def alloc_def sizeof_MatchPair_def pairCount_def
        r1_def r0_def RegExpShared_def)
  have src: "source r1 = ascii ''abc''" "length_str (ascii ''abc'') = 3"
    "length_str (ascii ''xxabcxx'') < 2 ^ 31"
    by (simp_all add: r1_def r0_def RegExpShared_def ascii_def)
  note g = t[where r = r1 and m = sampleBuffer and ?m1.0 = sampleBuffer1, THEN conjunct2,
             THEN conjunct2, THEN conjunct2, THEN conjunct2, THEN conjunct2, THEN conjunct1,
             THEN mp, OF conjI[OF i1 conjI[OF m al]]]
  then obtain p where p: "pairs' sampleBuffer1 = Some p"
    and q: "let res = StringFindPattern (ascii ''xxabcxx'') (source r1) 0;
              m2 = sampleBuffer1\<lparr>memory := (memory sampleBuffer1)
                         (p := \<lparr>start = res, limit = res + of_nat (length_str (source r1))\<rparr>)\<rparr>
          in execute anchoredA () r1 (ascii ''xxabcxx'') 0 (Some sampleBuffer) =
               (if res = -1 then Some (Returns (RegExpRunStatus_Success_NotFound, r1, Some sampleBuffer1, ()))
                else if checkAgainst (of_nat (length_str (ascii ''xxabcxx''))) m2
                     then Some (Returns (RegExpRunStatus_Success, r1, Some m2, ()))
                     else Some AssertionFailure) \<and>
             pairsOf m2 = [\<lparr>start = res, limit = res + of_nat (length_str (source r1))\<rparr>] \<and>
             (res \<noteq> -1 \<and> length_str (ascii ''xxabcxx'') < 2 ^ 31 \<longrightarrow>
                checkAgainst (of_nat (length_str (ascii ''xxabcxx''))) m2)"
    by blast
  define m2 where "m2 = sampleBuffer1\<lparr>memory := (memory sampleBuffer1)
                         (p := \<lparr>start = 2, limit = 2 + of_nat (length_str (ascii ''abc''))\<rparr>)\<rparr>"
  from q have y: "execute anchoredA () r1 (ascii ''xxabcxx'') 0 (Some sampleBuffer) =
                    Some (Returns (RegExpRunStatus_Success, r1, Some m2, ()))"
    and z: "pairsOf m2 = [\<lparr>start = 2, limit = 5\<rparr>]"
    unfolding Let_def src(1) f m2_def[symmetric] using src(3) by (simp_all add: src(2))
  note k = compile_canStringMatch[where env = anchoredA and input = "ascii ''xxa''" and mode = Normal
             and r = rs, THEN conjunct2, THEN conjunct2, THEN conjunct2, THEN conjunct2,
             THEN conjunct2, THEN conjunct2, THEN conjunct2, THEN conjunct1]
  have st: "sticky rs" by (simp add: rs_def RegExpShared_def sticky_def flag_defs)
  have w: "AtomizeChars (cstr ''^(?:'' @ twoByteContent (source rs) @ cstr '')'') = ascii ''^(?:a)''"
    by (simp add: rs_def RegExpShared_def AtomizeChars_def cstr_def ascii_def)
  from k[THEN mp, OF st]
  have sc: "compile anchoredA (ascii ''xxa'') Normal rs =
     (case ParsePattern anchoredA (ascii ''^(?:a)'') False False of
        None \<Rightarrow> Returns (False, rs)
      | Some data \<Rightarrow> Returns (True, compiledStickyA))"
    unfolding w
    by (simp add: rs_def RegExpShared_def anchoredA_def multiline_def ignoreCase_def flag_defs
          ascii_def empty_code_def compiledStickyA_def Let_def)
  from c e i1 x f y z sc show ?thesis unfolding r1_def r0_def rs_def by blast
qed

text \<open>
  The claim as stated lets the metacharacters of the source and the ignore-case flag alone
  decide. The sticky pattern with source \<open>a\<close> has neither, and yet \<open>compile\<close> does not make
  it string-matchable: it compiles \<open>^(?:a)\<close> to code.
\<close>

theorem compile_sticky_counterexample:
  "compile anchoredA (ascii ''xxa'') Normal (RegExpShared (ascii ''a'') StickyFlag) =
     Returns (True,
       \<lparr>source = ascii ''a'', flags = StickyFlag, parenCount = 0, canStringMatch = False,
        marked' = False,
        compilationArray = [\<lparr>jitCode = None, byteCode = Some 1\<rparr>,
                            \<lparr>jitCode = None, byteCode = None\<rparr>,
                            \<lparr>jitCode = None, byteCode = None\<rparr>,
                            \<lparr>jitCode = None, byteCode = None\<rparr>]\<rparr>) \<and>
   \<not> StringHasRegExpMetaChars (ascii ''a'') \<and>
   \<not> ignoreCase (RegExpShared (ascii ''a'') StickyFlag)"
  by (simp add: compile_def compile_pattern_def RegExpShared_def sticky_def ignoreCase_def
        StringHasRegExpMetaChars_def ascii_def IsRegExpMetaChar_def flag_defs anchoredA_def
        reserve_def append_sb_def infallibleAppend_def finishAtom_def AtomizeChars_def cstr_def
        empty_code_def Let_def)


section \<open>The registry: lookup and sweep\<close>

lemma sweep_keep_eq:
  "sweep_keep gc keep cs =
     (keep \<and> list_all (\<lambda>c. case jitCode c of None \<Rightarrow> True
                              | Some code \<Rightarrow> \<not> IsJitCodeAboutToBeFinalized gc code) cs)"
  by (induction cs arbitrary: keep) (auto split: option.splits)

lemma retained_Some:
  "cells st e = Some shared \<Longrightarrow>
     (sweep_keep gc (marked' shared \<and> \<not> IsStringAboutToBeFinalized gc (source shared))
        (compilationArray shared) \<or> isHeapCompacting gc) = retained gc st e"
  by (auto simp: retained_def sweep_keep_eq codeLive_def)

lemma sweep_loop_eq:
  assumes "distinct es" "\<forall>e\<in>set es. cells st e \<noteq> None"
  shows "sweep_loop gc es st = Returns (filter (retained gc st) es, swept gc es st)"
  using assms
proof (induction es arbitrary: st)
  case Nil
  show ?case by (simp add: swept_def)
next
  case (Cons e es)
  from Cons.prems obtain shared where sh: "cells st e = Some shared" by auto
  from Cons.prems have ne: "e \<notin> set es" and d: "distinct es" by simp_all
  define st1 where "st1 = (if retained gc st e
                           then st\<lparr>cells := (cells st)(e \<mapsto> shared\<lparr>marked' := False\<rparr>)\<rparr>
                           else st\<lparr>cells := (cells st)(e := None)\<rparr>)"
  have same: "cells st1 x = cells st x" if "x \<noteq> e" for x
    using that by (simp add: st1_def)
  have live: "\<forall>x\<in>set es. cells st1 x \<noteq> None"
  proof
    fix x assume x: "x \<in> set es"
    with ne have "x \<noteq> e" by auto
    from same[OF this] Cons.prems(2) x show "cells st1 x \<noteq> None" by simp
  qed
  have ret: "retained gc st1 x = retained gc st x" if "x \<in> set es" for x
  proof -
    from that ne have "x \<noteq> e" by auto
    from same[OF this] show ?thesis by (simp add: retained_def)
  qed
  have f: "filter (retained gc st1) es = filter (retained gc st) es"
    using ret by (auto intro: filter_cong)
  have sw: "swept gc es st1 = swept gc (e # es) st"
    unfolding swept_def
    by (auto simp: st1_def sh ne ret retained_def fun_eq_iff split: option.splits)
  note ih = Cons.IH[OF d live]
  show ?case
  proof (cases "retained gc st e")
    case True
    then show ?thesis
      using ih retained_Some[OF sh, of gc] f sw
      by (simp add: sh st1_def Let_def)
  next
    case False
    then show ?thesis
      using ih retained_Some[OF sh, of gc] f sw
      by (simp add: sh st1_def Let_def)
  qed
qed

lemma registryOk_iff:
  "registryOk reg st =
     (distinct (set' reg) \<and>
      (\<forall>e\<in>set (set' reg). e < nextFree st \<and> cells st e \<noteq> None) \<and>
      (\<forall>e\<in>set (set' reg). \<forall>e'\<in>set (set' reg).
          map_option source (cells st e) = map_option source (cells st e') \<and>
          map_option flags (cells st e) = map_option flags (cells st e') \<longrightarrow> e = e'))"
  unfolding registryOk_def list_all_iff by blast

lemma swept_cells:
  "cells (swept gc es st) a =
     (if a \<in> set es
      then (if retained gc st a then map_option (\<lambda>r. r\<lparr>marked' := False\<rparr>) (cells st a) else None)
      else cells st a)"
  "nextFree (swept gc es st) = nextFree st"
  by (simp_all add: swept_def)

lemma swept_key:
  assumes "e \<in> set es" "retained gc st e" "cells st e \<noteq> None"
  shows "map_option source (cells (swept gc es st) e) = map_option source (cells st e)"
    "map_option flags (cells (swept gc es st) e) = map_option flags (cells st e)"
    "cells (swept gc es st) e \<noteq> None"
proof -
  from assms(3) obtain r where r: "cells st e = Some r" by auto
  have "cells (swept gc es st) e = Some (r\<lparr>marked' := False\<rparr>)"
    using assms(1,2) r by (simp add: swept_cells)
  then show "map_option source (cells (swept gc es st) e) = map_option source (cells st e)"
    "map_option flags (cells (swept gc es st) e) = map_option flags (cells st e)"
    "cells (swept gc es st) e \<noteq> None"
    using r by simp_all
qed

lemma registryOk_swept:
  assumes "registryOk reg st"
  shows "registryOk (reg\<lparr>set' := filter (retained gc st) (set' reg), matchResultTemplateObject' := t\<rparr>)
           (swept gc (set' reg) st)"
proof -
  from assms have ok1: "distinct (set' reg)"
    unfolding registryOk_iff by blast
  from assms have ok2: "\<And>e. e \<in> set (set' reg) \<Longrightarrow> e < nextFree st \<and> cells st e \<noteq> None"
    unfolding registryOk_iff by blast
  from assms have ok3: "\<And>e e'. e \<in> set (set' reg) \<Longrightarrow> e' \<in> set (set' reg) \<Longrightarrow>
        map_option source (cells st e) = map_option source (cells st e') \<Longrightarrow>
        map_option flags (cells st e) = map_option flags (cells st e') \<Longrightarrow> e = e'"
    unfolding registryOk_iff by blast
  define st' where "st' = swept gc (set' reg) st"
  define es' where "es' = filter (retained gc st) (set' reg)"
  have mem: "e \<in> set (set' reg) \<and> retained gc st e" if "e \<in> set es'" for e
    using that by (simp add: es'_def)
  have g1: "distinct es'" using ok1 by (simp add: es'_def)
  have g2: "e < nextFree st' \<and> cells st' e \<noteq> None" if "e \<in> set es'" for e
  proof -
    from mem[OF that] have e: "e \<in> set (set' reg)" "retained gc st e" by simp_all
    from ok2[OF e(1)] have l: "e < nextFree st" "cells st e \<noteq> None" by simp_all
    from swept_key(3)[OF e l(2)] l(1) show ?thesis
      by (simp add: st'_def swept_cells(2))
  qed
  have g3: "e = e'" if "e \<in> set es'" "e' \<in> set es'"
      "map_option source (cells st' e) = map_option source (cells st' e')"
      "map_option flags (cells st' e) = map_option flags (cells st' e')" for e e'
  proof -
    from mem[OF that(1)] have e: "e \<in> set (set' reg)" "retained gc st e" by simp_all
    from mem[OF that(2)] have e': "e' \<in> set (set' reg)" "retained gc st e'" by simp_all
    from ok2[OF e(1)] have l: "cells st e \<noteq> None" by simp
    from ok2[OF e'(1)] have l': "cells st e' \<noteq> None" by simp
    have "map_option source (cells st e) = map_option source (cells st e')"
      using that(3) swept_key(1)[OF e l] swept_key(1)[OF e' l'] unfolding st'_def by metis
    moreover have "map_option flags (cells st e) = map_option flags (cells st e')"
      using that(4) swept_key(2)[OF e l] swept_key(2)[OF e' l'] unfolding st'_def by metis
    ultimately show ?thesis by (rule ok3[OF e(1) e'(1)])
  qed
  have s: "set' (reg\<lparr>set' := es', matchResultTemplateObject' := t\<rparr>) = es'" by simp
  have "registryOk (reg\<lparr>set' := es', matchResultTemplateObject' := t\<rparr>) st'"
    unfolding registryOk_iff s using g1 g2 g3 by blast
  then show ?thesis by (simp only: st'_def es'_def)
qed

lemma retained_unfold:
  "cells st e = Some shared \<Longrightarrow>
     retained gc st e =
       ((marked' shared \<and> \<not> IsStringAboutToBeFinalized gc (source shared) \<and>
         (\<forall>c\<in>set (compilationArray shared). \<forall>code. jitCode c = Some code \<longrightarrow>
             \<not> IsJitCodeAboutToBeFinalized gc code)) \<or> isHeapCompacting gc)"
  by (auto simp: retained_def codeLive_def list_all_iff split: option.splits)

text \<open>
  Claim C7. On a consistent registry \<open>sweep\<close> visits every entry and keeps exactly the
  entries that are retained: those whose record is marked while neither its source string
  nor any of its native code is about to be finalized, and all of them when the heap is
  being compacted. The record of an entry that is kept has its mark cleared; the record of
  every other entry is destroyed and the entry is gone from the registry; nothing else in
  the store changes, and the registry stays consistent. The template object is cleared,
  whatever happens to the entries, exactly when it is set and about to be finalized.
\<close>

theorem sweep_retains_exactly:
  "registryOk reg st \<longrightarrow>
     sweep gc (reg, st) =
       Returns (reg\<lparr>set' := filter (retained gc st) (set' reg),
                    matchResultTemplateObject' :=
                      (case matchResultTemplateObject' reg of
                         None \<Rightarrow> None
                       | Some obj \<Rightarrow> if IsObjectAboutToBeFinalized gc obj then None else Some obj)\<rparr>,
                swept gc (set' reg) st) \<and>
     (\<forall>e\<in>set (set' reg). \<forall>shared. cells st e = Some shared \<longrightarrow>
        retained gc st e =
          ((marked' shared \<and> \<not> IsStringAboutToBeFinalized gc (source shared) \<and>
            (\<forall>c\<in>set (compilationArray shared). \<forall>code. jitCode c = Some code \<longrightarrow>
                \<not> IsJitCodeAboutToBeFinalized gc code)) \<or> isHeapCompacting gc)) \<and>
     (\<forall>e\<in>set (set' reg). retained gc st e \<longrightarrow>
        cells (swept gc (set' reg) st) e = map_option (\<lambda>r. r\<lparr>marked' := False\<rparr>) (cells st e) \<and>
        cells (swept gc (set' reg) st) e \<noteq> None) \<and>
     (\<forall>e\<in>set (set' reg). \<not> retained gc st e \<longrightarrow> cells (swept gc (set' reg) st) e = None) \<and>
     (\<forall>a. a \<notin> set (set' reg) \<longrightarrow> cells (swept gc (set' reg) st) a = cells st a) \<and>
     registryOk (reg\<lparr>set' := filter (retained gc st) (set' reg),
                    matchResultTemplateObject' :=
                      (case matchResultTemplateObject' reg of
                         None \<Rightarrow> None
                       | Some obj \<Rightarrow> if IsObjectAboutToBeFinalized gc obj then None else Some obj)\<rparr>)
       (swept gc (set' reg) st)"
proof
  assume ok: "registryOk reg st"
  then have d: "distinct (set' reg)" and l: "\<forall>e\<in>set (set' reg). cells st e \<noteq> None"
    unfolding registryOk_iff by blast+
  have a: "sweep gc (reg, st) =
       Returns (reg\<lparr>set' := filter (retained gc st) (set' reg),
                    matchResultTemplateObject' :=
                      (case matchResultTemplateObject' reg of
                         None \<Rightarrow> None
                       | Some obj \<Rightarrow> if IsObjectAboutToBeFinalized gc obj then None else Some obj)\<rparr>,
                swept gc (set' reg) st)"
    by (simp add: sweep_def sweep_loop_eq[OF d l])
  have b: "\<forall>e\<in>set (set' reg). retained gc st e \<longrightarrow>
        cells (swept gc (set' reg) st) e = map_option (\<lambda>r. r\<lparr>marked' := False\<rparr>) (cells st e) \<and>
        cells (swept gc (set' reg) st) e \<noteq> None"
    using l by (auto simp: swept_cells)
  show "sweep gc (reg, st) =
       Returns (reg\<lparr>set' := filter (retained gc st) (set' reg),
                    matchResultTemplateObject' :=
                      (case matchResultTemplateObject' reg of
                         None \<Rightarrow> None
                       | Some obj \<Rightarrow> if IsObjectAboutToBeFinalized gc obj then None else Some obj)\<rparr>,
                swept gc (set' reg) st) \<and>
     (\<forall>e\<in>set (set' reg). \<forall>shared. cells st e = Some shared \<longrightarrow>
        retained gc st e =
          ((marked' shared \<and> \<not> IsStringAboutToBeFinalized gc (source shared) \<and>
            (\<forall>c\<in>set (compilationArray shared). \<forall>code. jitCode c = Some code \<longrightarrow>
                \<not> IsJitCodeAboutToBeFinalized gc code)) \<or> isHeapCompacting gc)) \<and>
     (\<forall>e\<in>set (set' reg). retained gc st e \<longrightarrow>
        cells (swept gc (set' reg) st) e = map_option (\<lambda>r. r\<lparr>marked' := False\<rparr>) (cells st e) \<and>
        cells (swept gc (set' reg) st) e \<noteq> None) \<and>
     (\<forall>e\<in>set (set' reg). \<not> retained gc st e \<longrightarrow> cells (swept gc (set' reg) st) e = None) \<and>
     (\<forall>a. a \<notin> set (set' reg) \<longrightarrow> cells (swept gc (set' reg) st) a = cells st a) \<and>
     registryOk (reg\<lparr>set' := filter (retained gc st) (set' reg),
                    matchResultTemplateObject' :=
                      (case matchResultTemplateObject' reg of
                         None \<Rightarrow> None
                       | Some obj \<Rightarrow> if IsObjectAboutToBeFinalized gc obj then None else Some obj)\<rparr>)
       (swept gc (set' reg) st)"
  proof (intro conjI)
    show "sweep gc (reg, st) =
       Returns (reg\<lparr>set' := filter (retained gc st) (set' reg),
                    matchResultTemplateObject' :=
                      (case matchResultTemplateObject' reg of
                         None \<Rightarrow> None
                       | Some obj \<Rightarrow> if IsObjectAboutToBeFinalized gc obj then None else Some obj)\<rparr>,
                swept gc (set' reg) st)" by (rule a)
    show "\<forall>e\<in>set (set' reg). \<forall>shared. cells st e = Some shared \<longrightarrow>
        retained gc st e =
          ((marked' shared \<and> \<not> IsStringAboutToBeFinalized gc (source shared) \<and>
            (\<forall>c\<in>set (compilationArray shared). \<forall>code. jitCode c = Some code \<longrightarrow>
                \<not> IsJitCodeAboutToBeFinalized gc code)) \<or> isHeapCompacting gc)"
      using retained_unfold by blast
    show "\<forall>e\<in>set (set' reg). retained gc st e \<longrightarrow>
        cells (swept gc (set' reg) st) e = map_option (\<lambda>r. r\<lparr>marked' := False\<rparr>) (cells st e) \<and>
        cells (swept gc (set' reg) st) e \<noteq> None" by (rule b)
    show "\<forall>e\<in>set (set' reg). \<not> retained gc st e \<longrightarrow> cells (swept gc (set' reg) st) e = None"
      by (simp add: swept_cells)
    show "\<forall>a. a \<notin> set (set' reg) \<longrightarrow> cells (swept gc (set' reg) st) a = cells st a"
      by (simp add: swept_cells)
    show "registryOk (reg\<lparr>set' := filter (retained gc st) (set' reg),
                    matchResultTemplateObject' :=
                      (case matchResultTemplateObject' reg of
                         None \<Rightarrow> None
                       | Some obj \<Rightarrow> if IsObjectAboutToBeFinalized gc obj then None else Some obj)\<rparr>)
       (swept gc (set' reg) st)" by (rule registryOk_swept[OF ok])
  qed
qed

theorem sweep_retains_exactly_witness:
  "registryOk (fst sampleRegistry) (snd sampleRegistry) \<and>
   (case sweep templateDying sampleRegistry of
      Returns (reg, st) \<Rightarrow>
        set' reg = [0] \<and> matchResultTemplateObject' reg = None \<and>
        cells st 0 = Some (RegExpShared (ascii ''a'') 0) \<and> cells st 1 = None
    | AssertionFailure \<Rightarrow> False
    | NullDereference \<Rightarrow> False) \<and>
   (case sweep (quietCollector\<lparr>isHeapCompacting := True\<rparr>) sampleRegistry of
      Returns (reg, st) \<Rightarrow>
        set' reg = [0, 1] \<and> matchResultTemplateObject' reg = Some 7 \<and>
        cells st 0 = Some (RegExpShared (ascii ''a'') 0) \<and>
        cells st 1 = Some (RegExpShared (ascii ''b'') 0)
    | AssertionFailure \<Rightarrow> False
    | NullDereference \<Rightarrow> False)"
proof -
  obtain reg st where rs: "sampleRegistry = (reg, st)" by (cases sampleRegistry)
  then have reg: "reg = \<lparr>set' = [0, 1], matchResultTemplateObject' = Some 7\<rparr>"
    and st: "st = \<lparr>cells = ((\<lambda>_. None)(0 \<mapsto> (RegExpShared (ascii ''a'') 0)\<lparr>marked' := True\<rparr>,
                                1 \<mapsto> RegExpShared (ascii ''b'') 0)),
                    nextFree = 2\<rparr>"
    by (simp_all add: sampleRegistry_def)
  have ok: "registryOk reg st"
    by (simp add: registryOk_def reg st RegExpShared_def ascii_def)
  have r0: "retained templateDying st 0" "\<not> retained templateDying st 1"
    by (simp_all add: retained_def st templateDying_def quietCollector_def RegExpShared_def codeLive_def)
  have r1: "retained (quietCollector\<lparr>isHeapCompacting := True\<rparr>) st 0"
           "retained (quietCollector\<lparr>isHeapCompacting := True\<rparr>) st 1"
    by (simp_all add: retained_def st quietCollector_def)
  from sweep_retains_exactly[of reg st templateDying] ok r0
  have a: "case sweep templateDying (reg, st) of
      Returns (reg, st) \<Rightarrow>
        set' reg = [0] \<and> matchResultTemplateObject' reg = None \<and>
        cells st 0 = Some (RegExpShared (ascii ''a'') 0) \<and> cells st 1 = None
    | AssertionFailure \<Rightarrow> False
    | NullDereference \<Rightarrow> False"
    by (simp add: reg swept_cells templateDying_def quietCollector_def)
       (simp add: st RegExpShared_def)
  from sweep_retains_exactly[of reg st "quietCollector\<lparr>isHeapCompacting := True\<rparr>"] ok r1
  have b: "case sweep (quietCollector\<lparr>isHeapCompacting := True\<rparr>) (reg, st) of
      Returns (reg, st) \<Rightarrow>
        set' reg = [0, 1] \<and> matchResultTemplateObject' reg = Some 7 \<and>
        cells st 0 = Some (RegExpShared (ascii ''a'') 0) \<and>
        cells st 1 = Some (RegExpShared (ascii ''b'') 0)
    | AssertionFailure \<Rightarrow> False
    | NullDereference \<Rightarrow> False"
    by (simp add: reg swept_cells quietCollector_def)
       (simp add: st RegExpShared_def)
  from ok a b show ?thesis by (simp add: rs)
qed

lemma trace_key: "source (trace b r) = source r" "flags (trace b r) = flags r"
  by (simp_all add: trace_def)

lemma MaybeTrace_cells:
  "map_option source (cells (MaybeTraceRegExpShared gc p st) a) = map_option source (cells st a)"
  "map_option flags (cells (MaybeTraceRegExpShared gc p st) a) = map_option flags (cells st a)"
  "(cells (MaybeTraceRegExpShared gc p st) a = None) = (cells st a = None)"
  "nextFree (MaybeTraceRegExpShared gc p st) = nextFree st"
  "a \<noteq> p \<Longrightarrow> cells (MaybeTraceRegExpShared gc p st) a = cells st a"
  by (auto simp: MaybeTraceRegExpShared_def trace_key split: option.splits)

lemma keyMatches_iff:
  "keyMatches st src fl a =
     (map_option source (cells st a) = Some src \<and> map_option flags (cells st a) = Some fl)"
  by (auto simp: keyMatches_def split: option.splits)

lemma keyMatches_trace:
  "keyMatches (MaybeTraceRegExpShared gc p st) src fl a = keyMatches st src fl a"
  by (simp only: keyMatches_iff MaybeTrace_cells)

lemma registryOk_trace:
  "registryOk reg st \<Longrightarrow> registryOk reg (MaybeTraceRegExpShared gc p st)"
  unfolding registryOk_iff MaybeTrace_cells by blast

lemma lookup_Some:
  "lookupForAdd src fl reg st = Some p \<Longrightarrow> p \<in> set (set' reg) \<and> keyMatches st src fl p"
  unfolding lookupForAdd_def find_Some_iff by (metis nth_mem)

lemma lookup_None:
  "lookupForAdd src fl reg st = None \<Longrightarrow> e \<in> set (set' reg) \<Longrightarrow> \<not> keyMatches st src fl e"
  unfolding lookupForAdd_def find_None_iff by blast

lemma lookup_trace:
  "lookupForAdd src fl reg (MaybeTraceRegExpShared gc p st) = lookupForAdd src fl reg st"
  unfolding lookupForAdd_def by (rule find_cong) (simp_all add: keyMatches_trace)

lemma get_hit:
  "lookupForAdd src fl reg st = Some p \<Longrightarrow>
     get gc nOk aOk src fl (reg, st) = (Inr p, reg, MaybeTraceRegExpShared gc p st)"
  by (simp add: get_def)

lemma get_miss:
  "lookupForAdd src fl reg st = None \<Longrightarrow> nOk \<Longrightarrow> aOk \<Longrightarrow>
     get gc nOk aOk src fl (reg, st) =
       (Inr (nextFree st), reg\<lparr>set' := set' reg @ [nextFree st]\<rparr>,
        MaybeTraceRegExpShared gc (nextFree st) (allocated src fl st))"
  by (simp add: get_def allocated_def Let_def)

lemma get_Inr:
  assumes "get gc nOk aOk src fl (reg, st) = (Inr a, reg1, st1)"
  shows "(lookupForAdd src fl reg st = Some a \<and> reg1 = reg \<and> st1 = MaybeTraceRegExpShared gc a st) \<or>
         (lookupForAdd src fl reg st = None \<and> a = nextFree st \<and>
          reg1 = reg\<lparr>set' := set' reg @ [nextFree st]\<rparr> \<and>
          st1 = MaybeTraceRegExpShared gc (nextFree st) (allocated src fl st))"
  using assms unfolding get_def allocated_def Let_def
  by (auto split: option.splits if_splits)

lemma allocated_cells:
  "cells (allocated src fl st) a =
     (if a = nextFree st then Some (RegExpShared src fl) else cells st a)"
  "nextFree (allocated src fl st) = nextFree st + 1"
  by (simp_all add: allocated_def)

lemma find_snoc:
  "find P (xs @ [x]) = (case find P xs of None \<Rightarrow> (if P x then Some x else None) | Some y \<Rightarrow> Some y)"
  by (induction xs) simp_all

lemma RegExpShared_key: "source (RegExpShared src fl) = src" "flags (RegExpShared src fl) = fl"
  by (simp_all add: RegExpShared_def)

lemma registryOk_miss:
  assumes "registryOk reg st" "lookupForAdd src fl reg st = None"
  shows "registryOk (reg\<lparr>set' := set' reg @ [nextFree st]\<rparr>) (allocated src fl st)"
    and "lookupForAdd src fl (reg\<lparr>set' := set' reg @ [nextFree st]\<rparr>) (allocated src fl st) =
           Some (nextFree st)"
    and "nextFree st \<notin> set (set' reg)"
proof -
  define new where "new = nextFree st"
  define st1 where "st1 = allocated src fl st"
  from assms(1) have ok1: "distinct (set' reg)"
    unfolding registryOk_iff by blast
  from assms(1) have ok2: "\<And>e. e \<in> set (set' reg) \<Longrightarrow> e < nextFree st \<and> cells st e \<noteq> None"
    unfolding registryOk_iff by blast
  from assms(1) have ok3: "\<And>e e'. e \<in> set (set' reg) \<Longrightarrow> e' \<in> set (set' reg) \<Longrightarrow>
        map_option source (cells st e) = map_option source (cells st e') \<Longrightarrow>
        map_option flags (cells st e) = map_option flags (cells st e') \<Longrightarrow> e = e'"
    unfolding registryOk_iff by blast
  have old: "e \<noteq> new \<and> cells st1 e = cells st e" if "e \<in> set (set' reg)" for e
    using ok2[OF that] by (simp add: new_def st1_def allocated_cells)
  have fresh: "new \<notin> set (set' reg)" using old by blast
  have cnew: "cells st1 new = Some (RegExpShared src fl)"
    by (simp add: new_def st1_def allocated_cells)
  have nomatch: "\<not> keyMatches st1 src fl e" if "e \<in> set (set' reg)" for e
    using lookup_None[OF assms(2) that] old[OF that] by (simp add: keyMatches_def)
  have knew: "keyMatches st1 src fl new"
    by (simp add: keyMatches_def cnew RegExpShared_key)
  show "nextFree st \<notin> set (set' reg)" using fresh by (simp add: new_def)
  have "find (keyMatches st1 src fl) (set' reg) = None"
    unfolding find_None_iff using nomatch by blast
  then have "lookupForAdd src fl (reg\<lparr>set' := set' reg @ [new]\<rparr>) st1 = Some new"
    using knew by (simp add: lookupForAdd_def find_snoc)
  then show "lookupForAdd src fl (reg\<lparr>set' := set' reg @ [nextFree st]\<rparr>) (allocated src fl st) =
           Some (nextFree st)"
    by (simp only: new_def st1_def)
  have g1: "distinct (set' reg @ [new])" using ok1 fresh by simp
  have g2: "e < nextFree st1 \<and> cells st1 e \<noteq> None" if "e \<in> set (set' reg @ [new])" for e
  proof (cases "e = new")
    case True
    then show ?thesis using cnew by (simp add: st1_def allocated_cells new_def)
  next
    case False
    with that have e: "e \<in> set (set' reg)" by simp
    from ok2[OF e] old[OF e] show ?thesis by (simp add: st1_def allocated_cells(2))
  qed
  have key_old: "\<not> (map_option source (cells st1 e) = map_option source (cells st1 new) \<and>
                    map_option flags (cells st1 e) = map_option flags (cells st1 new))"
    if "e \<in> set (set' reg)" for e
    using nomatch[OF that] unfolding keyMatches_iff cnew by (simp add: RegExpShared_key)
  have g3: "e = e'" if "e \<in> set (set' reg @ [new])" "e' \<in> set (set' reg @ [new])"
      "map_option source (cells st1 e) = map_option source (cells st1 e')"
      "map_option flags (cells st1 e) = map_option flags (cells st1 e')" for e e'
  proof (cases "e = new")
    case True
    show ?thesis
    proof (cases "e' = new")
      case True
      with \<open>e = new\<close> show ?thesis by simp
    next
      case False
      with that(2) have "e' \<in> set (set' reg)" by simp
      from key_old[OF this] that(3,4) True show ?thesis by metis
    qed
  next
    case False
    with that(1) have e: "e \<in> set (set' reg)" by simp
    show ?thesis
    proof (cases "e' = new")
      case True
      from key_old[OF e] that(3,4) True show ?thesis by metis
    next
      case False
      with that(2) have e': "e' \<in> set (set' reg)" by simp
      from old[OF e] old[OF e'] that(3,4)
      have "map_option source (cells st e) = map_option source (cells st e')"
           "map_option flags (cells st e) = map_option flags (cells st e')" by simp_all
      then show ?thesis by (rule ok3[OF e e'])
    qed
  qed
  have s: "set' (reg\<lparr>set' := set' reg @ [new]\<rparr>) = set' reg @ [new]" by simp
  have "registryOk (reg\<lparr>set' := set' reg @ [new]\<rparr>) st1"
    unfolding registryOk_iff s using g1 g2 g3 by blast
  then show "registryOk (reg\<lparr>set' := set' reg @ [nextFree st]\<rparr>) (allocated src fl st)"
    by (simp only: new_def st1_def)
qed

lemma registryOk_same:
  assumes ok: "registryOk reg st" and n: "nextFree st \<le> nextFree st2"
    and c: "\<And>e. e \<in> set (set' reg) \<Longrightarrow> cells st2 e = cells st e"
  shows "registryOk reg st2"
proof -
  from ok have ok1: "distinct (set' reg)"
    unfolding registryOk_iff by blast
  from ok have ok2: "\<And>e. e \<in> set (set' reg) \<Longrightarrow> e < nextFree st \<and> cells st e \<noteq> None"
    unfolding registryOk_iff by blast
  from ok have ok3: "\<And>e e'. e \<in> set (set' reg) \<Longrightarrow> e' \<in> set (set' reg) \<Longrightarrow>
        map_option source (cells st e) = map_option source (cells st e') \<Longrightarrow>
        map_option flags (cells st e) = map_option flags (cells st e') \<Longrightarrow> e = e'"
    unfolding registryOk_iff by blast
  have g2: "e < nextFree st2 \<and> cells st2 e \<noteq> None" if "e \<in> set (set' reg)" for e
    using ok2[OF that] c[OF that] n by simp
  have g3: "e = e'" if "e \<in> set (set' reg)" "e' \<in> set (set' reg)"
      "map_option source (cells st2 e) = map_option source (cells st2 e')"
      "map_option flags (cells st2 e) = map_option flags (cells st2 e')" for e e'
  proof -
    from c[OF that(1)] c[OF that(2)] that(3,4)
    have "map_option source (cells st e) = map_option source (cells st e')"
         "map_option flags (cells st e) = map_option flags (cells st e')" by simp_all
    then show ?thesis by (rule ok3[OF that(1,2)])
  qed
  show ?thesis unfolding registryOk_iff using ok1 g2 g3 by blast
qed

lemma lookup_same:
  assumes "\<And>e. e \<in> set (set' reg) \<Longrightarrow> cells st2 e = cells st e"
  shows "lookupForAdd src fl reg st2 = lookupForAdd src fl reg st"
  unfolding lookupForAdd_def by (rule find_cong) (simp_all add: keyMatches_def assms)

lemma registryOk_below:
  "registryOk reg st \<Longrightarrow> e \<in> set (set' reg) \<Longrightarrow> e \<noteq> nextFree st"
  unfolding registryOk_iff by blast

lemma get_cases:
  assumes "get gc nOk aOk src fl (reg, st) = (r, reg2, st2)"
  shows "(\<exists>p. lookupForAdd src fl reg st = Some p \<and> r = Inr p \<and> reg2 = reg \<and>
              st2 = MaybeTraceRegExpShared gc p st) \<or>
         (lookupForAdd src fl reg st = None \<and> \<not> nOk \<and> reg2 = reg \<and> st2 = st \<and>
          r = Inl \<lparr>errorNumber = JSMSG_OUT_OF_MEMORY, messageArg = []\<rparr>) \<or>
         (lookupForAdd src fl reg st = None \<and> nOk \<and> \<not> aOk \<and> reg2 = reg \<and>
          nextFree st2 = nextFree st + 1 \<and> (\<forall>e. e \<noteq> nextFree st \<longrightarrow> cells st2 e = cells st e) \<and>
          r = Inl \<lparr>errorNumber = JSMSG_OUT_OF_MEMORY, messageArg = []\<rparr>) \<or>
         (lookupForAdd src fl reg st = None \<and> nOk \<and> aOk \<and> r = Inr (nextFree st) \<and>
          reg2 = reg\<lparr>set' := set' reg @ [nextFree st]\<rparr> \<and>
          st2 = MaybeTraceRegExpShared gc (nextFree st) (allocated src fl st))"
  using assms unfolding get_def allocated_def Let_def
  by (auto split: option.splits if_splits)

lemma get_keeps:
  assumes ok: "registryOk reg st" and l: "lookupForAdd src fl reg st = Some a"
    and g: "get gc nOk aOk src2 fl2 (reg, st) = (r, reg2, st2)"
  shows "registryOk reg2 st2" "lookupForAdd src fl reg2 st2 = Some a"
proof -
  have "registryOk reg2 st2 \<and> lookupForAdd src fl reg2 st2 = Some a"
    using get_cases[OF g]
  proof (elim disjE exE conjE)
    fix p assume "reg2 = reg" "st2 = MaybeTraceRegExpShared gc p st"
    then show ?thesis using registryOk_trace[OF ok] l by (simp add: lookup_trace)
  next
    assume "reg2 = reg" "st2 = st"
    then show ?thesis using ok l by simp
  next
    assume a: "reg2 = reg" "nextFree st2 = nextFree st + 1"
       "\<forall>e. e \<noteq> nextFree st \<longrightarrow> cells st2 e = cells st e"
    have c: "cells st2 e = cells st e" if "e \<in> set (set' reg)" for e
      using registryOk_below[OF ok that] a(3) by blast
    have "registryOk reg st2" by (rule registryOk_same[OF ok _ c]) (simp_all add: a(2))
    moreover have "lookupForAdd src fl reg st2 = Some a"
      using lookup_same[of reg st2 st src fl, OF c] l by simp
    ultimately show ?thesis using a(1) by simp
  next
    assume a: "lookupForAdd src2 fl2 reg st = None"
       "reg2 = reg\<lparr>set' := set' reg @ [nextFree st]\<rparr>"
       "st2 = MaybeTraceRegExpShared gc (nextFree st) (allocated src2 fl2 st)"
    have c: "cells (allocated src2 fl2 st) e = cells st e" if "e \<in> set (set' reg)" for e
      using registryOk_below[OF ok that] by (simp add: allocated_cells)
    have "lookupForAdd src fl reg (allocated src2 fl2 st) = Some a"
      using lookup_same[of reg "allocated src2 fl2 st" st src fl, OF c] l by simp
    then have "lookupForAdd src fl (reg\<lparr>set' := set' reg @ [nextFree st]\<rparr>) (allocated src2 fl2 st) = Some a"
      by (simp add: lookupForAdd_def find_snoc)
    then have "lookupForAdd src fl reg2 st2 = Some a"
      by (simp add: a(2,3) lookup_trace)
    moreover have "registryOk reg2 st2"
      unfolding a(2,3) by (rule registryOk_trace[OF registryOk_miss(1)[OF ok a(1)]])
    ultimately show ?thesis by simp
  qed
  then show "registryOk reg2 st2" "lookupForAdd src fl reg2 st2 = Some a" by simp_all
qed

lemma lookup_unique:
  assumes ok: "registryOk reg st" and l: "lookupForAdd src fl reg st = Some a"
    and e: "e \<in> set (set' reg)" "keyMatches st src fl e"
  shows "e = a"
proof -
  from ok have ok3: "\<And>e e'. e \<in> set (set' reg) \<Longrightarrow> e' \<in> set (set' reg) \<Longrightarrow>
        map_option source (cells st e) = map_option source (cells st e') \<Longrightarrow>
        map_option flags (cells st e) = map_option flags (cells st e') \<Longrightarrow> e = e'"
    unfolding registryOk_iff by blast
  from lookup_Some[OF l] have a: "a \<in> set (set' reg)" "keyMatches st src fl a" by simp_all
  from e(2) a(2) have "map_option source (cells st e) = map_option source (cells st a)"
      "map_option flags (cells st e) = map_option flags (cells st a)"
    by (simp_all only: keyMatches_iff)
  then show ?thesis by (rule ok3[OF e(1) a(1)])
qed

lemma get_Inr_lookup:
  assumes ok: "registryOk reg st" and g: "get gc nOk aOk src fl (reg, st) = (Inr a, reg1, st1)"
  shows "registryOk reg1 st1" "lookupForAdd src fl reg1 st1 = Some a"
proof -
  have "registryOk reg1 st1 \<and> lookupForAdd src fl reg1 st1 = Some a"
    using get_Inr[OF g]
  proof (elim disjE conjE)
    assume a: "lookupForAdd src fl reg st = Some a" "reg1 = reg" "st1 = MaybeTraceRegExpShared gc a st"
    then show ?thesis using registryOk_trace[OF ok] by (simp add: lookup_trace)
  next
    assume a: "lookupForAdd src fl reg st = None" "a = nextFree st"
       "reg1 = reg\<lparr>set' := set' reg @ [nextFree st]\<rparr>"
       "st1 = MaybeTraceRegExpShared gc (nextFree st) (allocated src fl st)"
    show ?thesis unfolding a(2,3,4) lookup_trace
      using registryOk_trace[OF registryOk_miss(1)[OF ok a(1)]] registryOk_miss(2)[OF ok a(1)]
      by simp
  qed
  then show "registryOk reg1 st1" "lookupForAdd src fl reg1 st1 = Some a" by simp_all
qed

text \<open>
  Claim C1. On a consistent registry, \<open>get\<close> for a source and flags that are present
  returns the entry found, an entry whose record has that source and those flags, and
  leaves the entries as they are; for a source and flags that are absent, when the
  allocation and the insertion succeed, it returns a fresh address that was not an entry and
  inserts that one entry. Whenever \<open>get\<close> returns a record, the registry stays consistent,
  the record returned is the only entry with that source and those flags, and every later
  \<open>get\<close> with the same source and flags returns the very same address, without a new
  record: directly, and also after any other call of \<open>get\<close> on the registry, whatever that
  call asks for and however it ends.
\<close>

theorem get_same_instance:
  "registryOk reg st \<longrightarrow>
     (\<forall>p. lookupForAdd src fl reg st = Some p \<longrightarrow>
        get gc nOk aOk src fl (reg, st) = (Inr p, reg, MaybeTraceRegExpShared gc p st) \<and>
        p \<in> set (set' reg) \<and> keyMatches st src fl p) \<and>
     (lookupForAdd src fl reg st = None \<and> nOk \<and> aOk \<longrightarrow>
        get gc nOk aOk src fl (reg, st) =
          (Inr (nextFree st), reg\<lparr>set' := set' reg @ [nextFree st]\<rparr>,
           MaybeTraceRegExpShared gc (nextFree st) (allocated src fl st)) \<and>
        nextFree st \<notin> set (set' reg)) \<and>
     (\<forall>a reg1 st1. get gc nOk aOk src fl (reg, st) = (Inr a, reg1, st1) \<longrightarrow>
        registryOk reg1 st1 \<and>
        (\<forall>e\<in>set (set' reg1). keyMatches st1 src fl e = (e = a)) \<and>
        (\<forall>gc1 nOk1 aOk1.
           get gc1 nOk1 aOk1 src fl (reg1, st1) = (Inr a, reg1, MaybeTraceRegExpShared gc1 a st1)) \<and>
        (\<forall>gc1 nOk1 aOk1 src1 fl1 r reg2 st2.
           get gc1 nOk1 aOk1 src1 fl1 (reg1, st1) = (r, reg2, st2) \<longrightarrow>
             registryOk reg2 st2 \<and>
             (\<forall>gc2 nOk2 aOk2.
                get gc2 nOk2 aOk2 src fl (reg2, st2) =
                  (Inr a, reg2, MaybeTraceRegExpShared gc2 a st2))))"
proof
  assume ok: "registryOk reg st"
  have A: "\<forall>p. lookupForAdd src fl reg st = Some p \<longrightarrow>
        get gc nOk aOk src fl (reg, st) = (Inr p, reg, MaybeTraceRegExpShared gc p st) \<and>
        p \<in> set (set' reg) \<and> keyMatches st src fl p"
  proof (intro allI impI)
    fix p assume l: "lookupForAdd src fl reg st = Some p"
    show "get gc nOk aOk src fl (reg, st) = (Inr p, reg, MaybeTraceRegExpShared gc p st) \<and>
        p \<in> set (set' reg) \<and> keyMatches st src fl p"
      using get_hit[OF l] lookup_Some[OF l] by simp
  qed
  have B: "lookupForAdd src fl reg st = None \<and> nOk \<and> aOk \<longrightarrow>
        get gc nOk aOk src fl (reg, st) =
          (Inr (nextFree st), reg\<lparr>set' := set' reg @ [nextFree st]\<rparr>,
           MaybeTraceRegExpShared gc (nextFree st) (allocated src fl st)) \<and>
        nextFree st \<notin> set (set' reg)"
  proof
    assume a: "lookupForAdd src fl reg st = None \<and> nOk \<and> aOk"
    then have l: "lookupForAdd src fl reg st = None" and n: nOk and b: aOk by simp_all
    show "get gc nOk aOk src fl (reg, st) =
          (Inr (nextFree st), reg\<lparr>set' := set' reg @ [nextFree st]\<rparr>,
           MaybeTraceRegExpShared gc (nextFree st) (allocated src fl st)) \<and>
        nextFree st \<notin> set (set' reg)"
      using get_miss[OF l n b] registryOk_miss(3)[OF ok l] by simp
  qed
  have C: "\<forall>a reg1 st1. get gc nOk aOk src fl (reg, st) = (Inr a, reg1, st1) \<longrightarrow>
        registryOk reg1 st1 \<and>
        (\<forall>e\<in>set (set' reg1). keyMatches st1 src fl e = (e = a)) \<and>
        (\<forall>gc1 nOk1 aOk1.
           get gc1 nOk1 aOk1 src fl (reg1, st1) = (Inr a, reg1, MaybeTraceRegExpShared gc1 a st1)) \<and>
        (\<forall>gc1 nOk1 aOk1 src1 fl1 r reg2 st2.
           get gc1 nOk1 aOk1 src1 fl1 (reg1, st1) = (r, reg2, st2) \<longrightarrow>
             registryOk reg2 st2 \<and>
             (\<forall>gc2 nOk2 aOk2.
                get gc2 nOk2 aOk2 src fl (reg2, st2) =
                  (Inr a, reg2, MaybeTraceRegExpShared gc2 a st2)))"
  proof (intro allI impI)
    fix a reg1 st1
    assume g: "get gc nOk aOk src fl (reg, st) = (Inr a, reg1, st1)"
    note ok1 = get_Inr_lookup(1)[OF ok g] and l1 = get_Inr_lookup(2)[OF ok g]
    have u: "\<forall>e\<in>set (set' reg1). keyMatches st1 src fl e = (e = a)"
      using lookup_unique[OF ok1 l1] lookup_Some[OF l1] by blast
    have s: "\<forall>gc1 nOk1 aOk1.
           get gc1 nOk1 aOk1 src fl (reg1, st1) = (Inr a, reg1, MaybeTraceRegExpShared gc1 a st1)"
      using get_hit[OF l1] by blast
    have k: "\<forall>gc1 nOk1 aOk1 src1 fl1 r reg2 st2.
           get gc1 nOk1 aOk1 src1 fl1 (reg1, st1) = (r, reg2, st2) \<longrightarrow>
             registryOk reg2 st2 \<and>
             (\<forall>gc2 nOk2 aOk2.
                get gc2 nOk2 aOk2 src fl (reg2, st2) =
                  (Inr a, reg2, MaybeTraceRegExpShared gc2 a st2))"
    proof (intro allI impI)
      fix gc1 nOk1 aOk1 src1 fl1 r reg2 st2
      assume g2: "get gc1 nOk1 aOk1 src1 fl1 (reg1, st1) = (r, reg2, st2)"
      note ok2 = get_keeps(1)[OF ok1 l1 g2] and l2 = get_keeps(2)[OF ok1 l1 g2]
      show "registryOk reg2 st2 \<and>
             (\<forall>gc2 nOk2 aOk2.
                get gc2 nOk2 aOk2 src fl (reg2, st2) =
                  (Inr a, reg2, MaybeTraceRegExpShared gc2 a st2))"
        using ok2 get_hit[OF l2] by blast
    qed
    show "registryOk reg1 st1 \<and>
        (\<forall>e\<in>set (set' reg1). keyMatches st1 src fl e = (e = a)) \<and>
        (\<forall>gc1 nOk1 aOk1.
           get gc1 nOk1 aOk1 src fl (reg1, st1) = (Inr a, reg1, MaybeTraceRegExpShared gc1 a st1)) \<and>
        (\<forall>gc1 nOk1 aOk1 src1 fl1 r reg2 st2.
           get gc1 nOk1 aOk1 src1 fl1 (reg1, st1) = (r, reg2, st2) \<longrightarrow>
             registryOk reg2 st2 \<and>
             (\<forall>gc2 nOk2 aOk2.
                get gc2 nOk2 aOk2 src fl (reg2, st2) =
                  (Inr a, reg2, MaybeTraceRegExpShared gc2 a st2)))"
      by (intro conjI) (rule ok1 u s k)+
  qed
  show "(\<forall>p. lookupForAdd src fl reg st = Some p \<longrightarrow>
        get gc nOk aOk src fl (reg, st) = (Inr p, reg, MaybeTraceRegExpShared gc p st) \<and>
        p \<in> set (set' reg) \<and> keyMatches st src fl p) \<and>
     (lookupForAdd src fl reg st = None \<and> nOk \<and> aOk \<longrightarrow>
        get gc nOk aOk src fl (reg, st) =
          (Inr (nextFree st), reg\<lparr>set' := set' reg @ [nextFree st]\<rparr>,
           MaybeTraceRegExpShared gc (nextFree st) (allocated src fl st)) \<and>
        nextFree st \<notin> set (set' reg)) \<and>
     (\<forall>a reg1 st1. get gc nOk aOk src fl (reg, st) = (Inr a, reg1, st1) \<longrightarrow>
        registryOk reg1 st1 \<and>
        (\<forall>e\<in>set (set' reg1). keyMatches st1 src fl e = (e = a)) \<and>
        (\<forall>gc1 nOk1 aOk1.
           get gc1 nOk1 aOk1 src fl (reg1, st1) = (Inr a, reg1, MaybeTraceRegExpShared gc1 a st1)) \<and>
        (\<forall>gc1 nOk1 aOk1 src1 fl1 r reg2 st2.
           get gc1 nOk1 aOk1 src1 fl1 (reg1, st1) = (r, reg2, st2) \<longrightarrow>
             registryOk reg2 st2 \<and>
             (\<forall>gc2 nOk2 aOk2.
                get gc2 nOk2 aOk2 src fl (reg2, st2) =
                  (Inr a, reg2, MaybeTraceRegExpShared gc2 a st2))))"
    by (intro conjI) (rule A B C)+
qed

theorem get_same_instance_witness:
  "registryOk (fst sampleRegistry) (snd sampleRegistry) \<and>
   fst (get quietCollector False False (ascii ''a'') 0 sampleRegistry) = Inr 0 \<and>
   (case get quietCollector True True (ascii ''c'') 0 sampleRegistry of
      (r, reg1, st1) \<Rightarrow>
        r = Inr 2 \<and> set' reg1 = [0, 1, 2] \<and>
        fst (get quietCollector False False (ascii ''c'') 0 (reg1, st1)) = Inr 2 \<and>
        (case get quietCollector True True (ascii ''d'') 0 (reg1, st1) of
           (r', state2) \<Rightarrow>
             r' = Inr 3 \<and> fst (get quietCollector False False (ascii ''c'') 0 state2) = Inr 2))"
proof -
  obtain reg st where rs: "sampleRegistry = (reg, st)" by (cases sampleRegistry)
  then have reg: "reg = \<lparr>set' = [0, 1], matchResultTemplateObject' = Some 7\<rparr>"
    and st: "st = \<lparr>cells = ((\<lambda>_. None)(0 \<mapsto> (RegExpShared (ascii ''a'') 0)\<lparr>marked' := True\<rparr>,
                                1 \<mapsto> RegExpShared (ascii ''b'') 0)),
                    nextFree = 2\<rparr>"
    by (simp_all add: sampleRegistry_def)
  have ok: "registryOk reg st"
    by (simp add: registryOk_def reg st RegExpShared_def ascii_def)
  have la: "lookupForAdd (ascii ''a'') 0 reg st = Some 0"
    by (simp add: lookupForAdd_def keyMatches_def reg st RegExpShared_def ascii_def)
  have lc: "lookupForAdd (ascii ''c'') 0 reg st = None"
    by (simp add: lookupForAdd_def keyMatches_def reg st RegExpShared_def ascii_def)
  from get_same_instance[of reg st "ascii ''a''" 0 quietCollector False False] ok la
  have a: "fst (get quietCollector False False (ascii ''a'') 0 (reg, st)) = Inr 0"
    by simp
  have n: "nextFree st = 2" by (simp add: st)
  define reg1 where "reg1 = reg\<lparr>set' := set' reg @ [nextFree st]\<rparr>"
  define st1 where
    "st1 = MaybeTraceRegExpShared quietCollector (nextFree st) (allocated (ascii ''c'') 0 st)"
  have g1: "get quietCollector True True (ascii ''c'') 0 (reg, st) = (Inr 2, reg1, st1)"
    using get_miss[OF lc, of True True quietCollector] by (simp add: reg1_def st1_def n)
  have s1: "set' reg1 = [0, 1, 2]" by (simp add: reg1_def reg n)
  have c1: "cells st1 = (cells st)(2 \<mapsto> RegExpShared (ascii ''c'') 0)" and n1: "nextFree st1 = 3"
    by (simp_all add: st1_def MaybeTraceRegExpShared_def quietCollector_def allocated_def n)
  have ld: "lookupForAdd (ascii ''d'') 0 reg1 st1 = None"
    by (simp add: lookupForAdd_def keyMatches_def s1 c1 st RegExpShared_def ascii_def)
  define reg2 where "reg2 = reg1\<lparr>set' := set' reg1 @ [nextFree st1]\<rparr>"
  define st2 where
    "st2 = MaybeTraceRegExpShared quietCollector (nextFree st1) (allocated (ascii ''d'') 0 st1)"
  have g2: "get quietCollector True True (ascii ''d'') 0 (reg1, st1) = (Inr 3, reg2, st2)"
    using get_miss[OF ld, of True True quietCollector] by (simp add: reg2_def st2_def n1)
  note C = get_same_instance[of reg st "ascii ''c''" 0 quietCollector True True, THEN mp, OF ok,
      THEN conjunct2, THEN conjunct2, THEN spec, THEN spec, THEN spec, THEN mp, OF g1]
  note S = C[THEN conjunct2, THEN conjunct2, THEN conjunct1, THEN spec, THEN spec, THEN spec]
  note K = C[THEN conjunct2, THEN conjunct2, THEN conjunct2, THEN spec, THEN spec, THEN spec,
      THEN spec, THEN spec, THEN spec, THEN spec, THEN spec, THEN mp, OF g2, THEN conjunct2,
      THEN spec, THEN spec, THEN spec]
  have c: "fst (get quietCollector False False (ascii ''c'') 0 (reg1, st1)) = Inr 2"
    by (simp only: S fst_conv)
  have d: "fst (get quietCollector False False (ascii ''c'') 0 (reg2, st2)) = Inr 2"
    by (simp only: K fst_conv)
  have "registryOk (fst sampleRegistry) (snd sampleRegistry)"
    using ok by (simp only: rs fst_conv snd_conv)
  moreover have "fst (get quietCollector False False (ascii ''a'') 0 sampleRegistry) = Inr 0"
    using a by (simp only: rs)
  moreover have "case get quietCollector True True (ascii ''c'') 0 sampleRegistry of
      (r, reg1, st1) \<Rightarrow>
        r = Inr 2 \<and> set' reg1 = [0, 1, 2] \<and>
        fst (get quietCollector False False (ascii ''c'') 0 (reg1, st1)) = Inr 2 \<and>
        (case get quietCollector True True (ascii ''d'') 0 (reg1, st1) of
           (r', state2) \<Rightarrow>
             r' = Inr 3 \<and> fst (get quietCollector False False (ascii ''c'') 0 state2) = Inr 2)"
    unfolding rs g1 prod.case g2 using s1 c d by simp
  ultimately show ?thesis by blast
qed

end
